theory Spec2Isabelle
  imports Main
begin

section \<open>Python strings\<close>

text \<open>
  A Python \<open>str\<close> is a sequence of Unicode code points; it is modelled as the list of
  those code points. \<open>str\<close> turns an ASCII literal into that representation.
\<close>

type_synonym pystr = "nat list"

definition str :: "string \<Rightarrow> pystr" where
  "str cs = map of_char cs"

text \<open>
  \<open>str.isspace\<close> for one code point: the code points CPython treats as whitespace
  (U+0009..U+000D, U+001C..U+0020, U+0085, U+00A0, U+1680, U+2000..U+200A, U+2028,
  U+2029, U+202F, U+205F, U+3000).
\<close>

definition isspace :: "nat \<Rightarrow> bool" where
  "isspace c \<longleftrightarrow>
     (9 \<le> c \<and> c \<le> 13) \<or> (28 \<le> c \<and> c \<le> 32) \<or> c = 133 \<or> c = 160 \<or> c = 5760 \<or>
     (8192 \<le> c \<and> c \<le> 8202) \<or> c = 8232 \<or> c = 8233 \<or> c = 8239 \<or> c = 8287 \<or> c = 12288"

text \<open>\<open>s.strip()\<close> with no argument: leading and trailing whitespace removed.\<close>

definition strip :: "pystr \<Rightarrow> pystr" where
  "strip s = rev (dropWhile isspace (rev (dropWhile isspace s)))"

section \<open>Configuration from the environment\<close>

text \<open>
  The process environment, as it is after \<open>load_dotenv()\<close>, is a map from variable
  names to values. \<open>os.getenv(key, default)\<close> returns the value, or the default when the
  variable is not set.
\<close>

type_synonym environ = "pystr \<rightharpoonup> pystr"

definition getenv :: "environ \<Rightarrow> pystr \<Rightarrow> pystr \<Rightarrow> pystr" where
  "getenv env key dflt = (case env key of Some v \<Rightarrow> v | None \<Rightarrow> dflt)"

record db_config =
  host :: pystr
  port :: pystr
  dbname :: pystr
  user :: pystr
  password :: pystr

definition DB_CONFIG :: "environ \<Rightarrow> db_config" where
  "DB_CONFIG env =
     \<lparr> host = getenv env (str ''DATABASE_HOST'') (str ''127.0.0.1''),
       port = getenv env (str ''DATABASE_PORT'') (str ''5432''),
       dbname = getenv env (str ''DATABASE_NAME'') (str ''apen''),
       user = getenv env (str ''DATABASE_USERNAME'') (str ''postgres''),
       password = getenv env (str ''DATABASE_PASSWORD'') (str '''') \<rparr>"

section \<open>The table and the two SQL statements\<close>

text \<open>
  A row of \<open>feed_coldstart\<close> is \<open>(feed_id, feed_type, position)\<close>; the table is the list
  of its rows in insertion order. The position and the counters of the scripts start at
  zero and only grow, so they are natural numbers.
\<close>

type_synonym entry = "pystr \<times> pystr \<times> nat"

datatype statement =
    DeleteAll
  | InsertIgnore pystr pystr nat

text \<open>\<open>INSERT ... ON CONFLICT (feed_id) DO NOTHING\<close> on a table.\<close>

definition insert_ignore :: "entry \<Rightarrow> entry list \<Rightarrow> entry list" where
  "insert_ignore e t = (if fst e \<in> fst ` set t then t else t @ [e])"

text \<open>A statement's effect on the table, with the number of rows it affected.\<close>

fun run_statement :: "statement \<Rightarrow> entry list \<Rightarrow> entry list \<times> int" where
  "run_statement DeleteAll t = ([], int (length t))"
| "run_statement (InsertIgnore i ty p) t =
     (insert_ignore (i, ty, p) t, if i \<in> fst ` set t then 0 else 1)"

section \<open>The database driver and the process\<close>

datatype error =
    StopIteration
  | OSError string
  | UnicodeDecodeError
  | CsvError string
  | DatabaseError string
  | InterfaceError string

datatype outcome = Returned | Raised error

datatype event =
    Connect
  | Cursor
  | OpenFile
  | CloseFile
  | Execute statement
  | Commit
  | Rollback
  | CursorClose
  | ConnClose

datatype line = Deleted int | Loaded nat

text \<open>
  The state of one run of a script: \<open>committed\<close> is the table as the database holds it,
  \<open>working\<close> is the table as the open transaction of the connection sees it, \<open>trace\<close>
  lists the calls that completed, in order, and \<open>stdout\<close> the lines printed
  (\<open>Deleted n\<close> for "Deleted n records from feed_coldstart", \<open>Loaded n\<close> for
  "Loaded n records into feed_coldstart"). \<open>pending\<close> holds from the first \<open>execute\<close>
  call on the connection until a commit or a rollback completes or the connection is
  closed: it is when the connection has something to tell the server on \<open>rollback\<close>.
\<close>

record state =
  committed :: "entry list"
  working :: "entry list"
  conn_open :: bool
  cur_open :: bool
  pending :: bool
  rowcount :: int
  trace :: "event list"
  stdout :: "line list"

text \<open>
  What the outside world does to a run: each call that can raise does so when its
  entry here holds an error. \<open>execute_fault k\<close> is for the statement issued after \<open>k\<close>
  statements completed. \<open>rollback_fault\<close> is for \<open>connection.rollback\<close>, which can raise
  only while statements are pending (otherwise it returns without a word to the server);
  \<open>print_fault\<close> is for \<open>print\<close>. \<open>cursor.close\<close> and \<open>connection.close\<close> return.
\<close>

record faults =
  connect_fault :: "db_config \<Rightarrow> error option"
  cursor_fault :: "error option"
  open_fault :: "error option"
  execute_fault :: "nat \<Rightarrow> error option"
  commit_fault :: "error option"
  rollback_fault :: "error option"
  print_fault :: "error option"

text \<open>
  What successive \<open>next(reader)\<close> calls give for the opened file: a parsed row, or an
  error raised while reading, decoding or parsing. After the last item the reader is
  exhausted.
\<close>

datatype read = Row "pystr list" | ReadFails error

definition start :: "entry list \<Rightarrow> state" where
  "start t = \<lparr> committed = t, working = t, conn_open = False, cur_open = False,
               pending = False, rowcount = - 1, trace = [], stdout = [] \<rparr>"

definition connect :: "faults \<Rightarrow> db_config \<Rightarrow> state \<Rightarrow> outcome \<times> state" where
  "connect F cfg s =
     (case connect_fault F cfg of
        Some e \<Rightarrow> (Raised e, s)
      | None \<Rightarrow> (Returned, s\<lparr>conn_open := True, working := committed s,
                              trace := trace s @ [Connect]\<rparr>))"

definition cursor :: "faults \<Rightarrow> state \<Rightarrow> outcome \<times> state" where
  "cursor F s =
     (case cursor_fault F of
        Some e \<Rightarrow> (Raised e, s)
      | None \<Rightarrow> (Returned, s\<lparr>cur_open := True, rowcount := - 1,
                              trace := trace s @ [Cursor]\<rparr>))"

text \<open>A statement that raises leaves the cursor's \<open>rowcount\<close> at \<open>-1\<close>.\<close>

definition execute :: "faults \<Rightarrow> nat \<Rightarrow> statement \<Rightarrow> state \<Rightarrow> outcome \<times> state" where
  "execute F k stmt s =
     (case execute_fault F k of
        Some e \<Rightarrow> (Raised e, s\<lparr>pending := True, rowcount := - 1\<rparr>)
      | None \<Rightarrow>
          (Returned, s\<lparr>working := fst (run_statement stmt (working s)),
                        pending := True,
                        rowcount := snd (run_statement stmt (working s)),
                        trace := trace s @ [Execute stmt]\<rparr>))"

definition commit :: "faults \<Rightarrow> state \<Rightarrow> outcome \<times> state" where
  "commit F s =
     (case commit_fault F of
        Some e \<Rightarrow> (Raised e, s)
      | None \<Rightarrow> (Returned, s\<lparr>committed := working s, pending := False,
                              trace := trace s @ [Commit]\<rparr>))"

text \<open>
  \<open>connection.rollback()\<close>: with nothing pending it returns at once; with statements
  pending it talks to the server and can raise, and then nothing has been rolled back by
  the call and the transaction stays as it is until the connection is closed.
\<close>

definition rollback :: "faults \<Rightarrow> state \<Rightarrow> outcome \<times> state" where
  "rollback F s =
     (if pending s then
        (case rollback_fault F of
           Some e \<Rightarrow> (Raised e, s)
         | None \<Rightarrow> (Returned, s\<lparr>working := committed s, pending := False,
                                 trace := trace s @ [Rollback]\<rparr>))
      else (Returned, s\<lparr>working := committed s, trace := trace s @ [Rollback]\<rparr>))"

definition cursor_close :: "state \<Rightarrow> state" where
  "cursor_close s = s\<lparr>cur_open := False, trace := trace s @ [CursorClose]\<rparr>"

definition conn_close :: "state \<Rightarrow> state" where
  "conn_close s = s\<lparr>conn_open := False, working := committed s, pending := False,
                    trace := trace s @ [ConnClose]\<rparr>"

definition open_file :: "state \<Rightarrow> state" where
  "open_file s = s\<lparr>trace := trace s @ [OpenFile]\<rparr>"

definition close_file :: "state \<Rightarrow> state" where
  "close_file s = s\<lparr>trace := trace s @ [CloseFile]\<rparr>"

text \<open>\<open>print\<close> of one line; it can raise, and then nothing is printed.\<close>

definition print_line :: "faults \<Rightarrow> line \<Rightarrow> state \<Rightarrow> outcome \<times> state" where
  "print_line F l s =
     (case print_fault F of
        Some e \<Rightarrow> (Raised e, s)
      | None \<Rightarrow> (Returned, s\<lparr>stdout := stdout s @ [l]\<rparr>))"

section \<open>delete_coldstart\<close>

text \<open>The body of the \<open>try\<close> block of \<open>delete_coldstart\<close>.\<close>

definition delete_try :: "faults \<Rightarrow> state \<Rightarrow> outcome \<times> state" where
  "delete_try F s =
     (case execute F 0 DeleteAll s of
        (Raised e, s1) \<Rightarrow> (Raised e, s1)
      | (Returned, s1) \<Rightarrow>
          (case commit F s1 of
             (Raised e, s2) \<Rightarrow> (Raised e, s2)
           | (Returned, s2) \<Rightarrow> print_line F (Deleted (rowcount s2)) s2))"

text \<open>
  One run of \<open>delete_coldstart()\<close> against a database whose table holds \<open>t\<close>: the
  connection and the cursor are taken outside the \<open>try\<close>; the handler rolls back and
  raises the error again, unless the rollback raises, and then that error goes on; the
  \<open>finally\<close> clause closes the cursor and the connection.
\<close>

definition delete_coldstart :: "faults \<Rightarrow> environ \<Rightarrow> entry list \<Rightarrow> outcome \<times> state" where
  "delete_coldstart F env t =
     (case connect F (DB_CONFIG env) (start t) of
        (Raised e, s0) \<Rightarrow> (Raised e, s0)
      | (Returned, conn) \<Rightarrow>
          (case cursor F conn of
             (Raised e, s0) \<Rightarrow> (Raised e, s0)
           | (Returned, cur) \<Rightarrow>
               (case delete_try F cur of
                  (Raised e, s1) \<Rightarrow>
                    (case rollback F s1 of
                       (Raised e', s2) \<Rightarrow> (Raised e', conn_close (cursor_close s2))
                     | (Returned, s2) \<Rightarrow> (Raised e, conn_close (cursor_close s2)))
                | (Returned, s1) \<Rightarrow> (Returned, conn_close (cursor_close s1)))))"

section \<open>load_coldstart\<close>

text \<open>
  The \<open>for position, row in enumerate(reader)\<close> loop, over the items the reader still
  has to give, with the current \<open>position\<close> and \<open>count\<close>. It ends with the final
  \<open>count\<close>, or with the error of the read or of the statement that raised.
\<close>

fun for_rows :: "faults \<Rightarrow> read list \<Rightarrow> nat \<Rightarrow> nat \<Rightarrow> state \<Rightarrow> (error + nat) \<times> state" where
  "for_rows F [] position count s = (Inr count, s)"
| "for_rows F (ReadFails e # rest) position count s = (Inl e, s)"
| "for_rows F (Row row # rest) position count s =
     (if row = [] \<or> strip (row ! 0) = [] then for_rows F rest (position + 1) count s
      else
        (case execute F count (InsertIgnore (strip (row ! 0)) (str ''post'') position) s of
           (Raised e, s1) \<Rightarrow> (Inl e, s1)
         | (Returned, s1) \<Rightarrow> for_rows F rest (position + 1) (count + 1) s1))"

text \<open>
  The body of the \<open>try\<close> block of \<open>load_coldstart\<close>. \<open>csv\<close> is what the reader gives
  for \<open>CSV_FILE\<close>, that is \<open>coldstart.csv\<close>; the \<open>with\<close> statement closes the file on every way out of its
  block; \<open>next(reader)\<close> on an exhausted reader raises \<open>StopIteration\<close>.
\<close>

definition load_try :: "faults \<Rightarrow> read list \<Rightarrow> state \<Rightarrow> outcome \<times> state" where
  "load_try F csv s =
     (case open_fault F of
        Some e \<Rightarrow> (Raised e, s)
      | None \<Rightarrow>
          (case csv of
             [] \<Rightarrow> (Raised StopIteration, close_file (open_file s))
           | ReadFails e # rest \<Rightarrow> (Raised e, close_file (open_file s))
           | Row header # rest \<Rightarrow>
               (case for_rows F rest 0 0 (open_file s) of
                  (Inl e, s1) \<Rightarrow> (Raised e, close_file s1)
                | (Inr count, s1) \<Rightarrow>
                    (case commit F (close_file s1) of
                       (Raised e, s2) \<Rightarrow> (Raised e, s2)
                     | (Returned, s2) \<Rightarrow> print_line F (Loaded count) s2))))"

text \<open>One run of \<open>load_coldstart()\<close> against a database whose table holds \<open>t\<close>.\<close>

definition load_coldstart ::
  "faults \<Rightarrow> environ \<Rightarrow> read list \<Rightarrow> entry list \<Rightarrow> outcome \<times> state" where
  "load_coldstart F env csv t =
     (case connect F (DB_CONFIG env) (start t) of
        (Raised e, s0) \<Rightarrow> (Raised e, s0)
      | (Returned, conn) \<Rightarrow>
          (case cursor F conn of
             (Raised e, s0) \<Rightarrow> (Raised e, s0)
           | (Returned, cur) \<Rightarrow>
               (case load_try F csv cur of
                  (Raised e, s1) \<Rightarrow>
                    (case rollback F s1 of
                       (Raised e', s2) \<Rightarrow> (Raised e', conn_close (cursor_close s2))
                     | (Returned, s2) \<Rightarrow> (Raised e, conn_close (cursor_close s2)))
                | (Returned, s1) \<Rightarrow> (Returned, conn_close (cursor_close s1)))))"

text \<open>A world in which no call raises.\<close>

definition no_faults :: faults where
  "no_faults = \<lparr> connect_fault = (\<lambda>cfg. None), cursor_fault = None, open_fault = None,
                 execute_fault = (\<lambda>k. None), commit_fault = None, rollback_fault = None,
                 print_fault = None \<rparr>"

section \<open>What the loader is expected to do, row by row\<close>

text \<open>
  A data row is blank when it is empty or when its first field is empty or holds only
  whitespace.
\<close>

definition blank :: "pystr list \<Rightarrow> bool" where
  "blank row \<longleftrightarrow> row = [] \<or> list_all isspace (row ! 0)"

text \<open>
  The statements expected of the loader for the data rows, enumerated from \<open>p\<close>: one
  conflict-ignoring insert of \<open>(trimmed first field, "post", index)\<close> for each row that
  is not blank.
\<close>

definition attempts :: "nat \<Rightarrow> pystr list list \<Rightarrow> statement list" where
  "attempts p rows =
     [InsertIgnore (strip (row ! 0)) (str ''post'') i. (i, row) \<leftarrow> enumerate p rows, \<not> blank row]"

text \<open>The table after a list of statements.\<close>

definition apply_all :: "statement list \<Rightarrow> entry list \<Rightarrow> entry list" where
  "apply_all sts t = fold (\<lambda>st t'. fst (run_statement st t')) sts t"

text \<open>The state of a run once the connection and the cursor have been acquired.\<close>

definition acquired :: "entry list \<Rightarrow> state" where
  "acquired t = (start t)\<lparr>conn_open := True, cur_open := True, trace := [Connect, Cursor]\<rparr>"

text \<open>The statements among the calls of a trace, in order.\<close>

fun executed :: "event list \<Rightarrow> statement list" where
  "executed [] = []"
| "executed (Execute st # evs) = st # executed evs"
| "executed (ev # evs) = executed evs"

text \<open>
  The calls of the \<open>try\<close> block of \<open>load_coldstart\<close> that can raise, in the order in
  which a run without an error makes them, each with what the world has in store for it:
  \<open>open\<close>, the read of the header, then for each item of the reader its read and, for a
  row that is not blank, its \<open>execute\<close> (the \<open>k\<close>-th one for the row with \<open>k\<close> rows that are
  not blank before it), then \<open>commit\<close> and \<open>print\<close>. A read that raises ends the list.
\<close>

datatype call = OpenCall | ReadCall | ExecuteCall | CommitCall | PrintCall

fun row_calls :: "faults \<Rightarrow> read list \<Rightarrow> nat \<Rightarrow> (call \<times> error option) list" where
  "row_calls F [] k = []"
| "row_calls F (ReadFails e # rest) k = [(ReadCall, Some e)]"
| "row_calls F (Row row # rest) k =
     (if blank row then (ReadCall, None) # row_calls F rest k
      else (ReadCall, None) # (ExecuteCall, execute_fault F k) # row_calls F rest (k + 1))"

definition try_calls :: "faults \<Rightarrow> read list \<Rightarrow> (call \<times> error option) list" where
  "try_calls F csv =
     (OpenCall, open_fault F) #
     (case csv of
        [] \<Rightarrow> [(ReadCall, Some StopIteration)]
      | ReadFails e # rest \<Rightarrow> [(ReadCall, Some e)]
      | Row header # rest \<Rightarrow>
          (ReadCall, None) # row_calls F rest 0 @
          [(CommitCall, commit_fault F), (PrintCall, print_fault F)])"

text \<open>The error of the first call that has one.\<close>

fun first_error :: "(call \<times> error option) list \<Rightarrow> error option" where
  "first_error [] = None"
| "first_error ((c, None) # cs) = first_error cs"
| "first_error ((c, Some e) # cs) = Some e"

text \<open>The calls that are made: all of them up to the first one that raises, that one included.\<close>

fun attempted :: "(call \<times> error option) list \<Rightarrow> call list" where
  "attempted [] = []"
| "attempted ((c, None) # cs) = c # attempted cs"
| "attempted ((c, Some e) # cs) = [c]"

text \<open>
  Whether the handler's \<open>rollback\<close> finds statements pending: an \<open>execute\<close> has been
  called and the commit has not completed (\<open>print\<close> is called only after it has).
\<close>

definition rollback_pending :: "faults \<Rightarrow> read list \<Rightarrow> bool" where
  "rollback_pending F csv \<longleftrightarrow>
     ExecuteCall \<in> set (attempted (try_calls F csv)) \<and>
     PrintCall \<notin> set (attempted (try_calls F csv))"

section \<open>The row loop\<close>

lemmas run_defs =
  load_coldstart_def load_try_def delete_coldstart_def delete_try_def connect_def cursor_def
  execute_def commit_def rollback_def open_file_def close_file_def print_line_def
  cursor_close_def conn_close_def start_def no_faults_def insert_ignore_def

lemmas str_defs = str_def strip_def isspace_def

lemma strip_empty_iff: "strip s = [] \<longleftrightarrow> (\<forall>c\<in>set s. isspace c)"
proof -
  have "(\<forall>x\<in>set (dropWhile isspace s). isspace x) \<longleftrightarrow> dropWhile isspace s = []"
  proof
    assume a: "\<forall>x\<in>set (dropWhile isspace s). isspace x"
    show "dropWhile isspace s = []"
    proof (rule ccontr)
      assume n: "dropWhile isspace s \<noteq> []"
      then have "\<not> isspace (hd (dropWhile isspace s))" by (rule hd_dropWhile)
      moreover have "hd (dropWhile isspace s) \<in> set (dropWhile isspace s)" using n by simp
      ultimately show False using a by blast
    qed
  qed (auto dest: set_dropWhileD)
  then show ?thesis by (simp add: strip_def dropWhile_eq_Nil_conv)
qed

lemma blank_iff: "blank row \<longleftrightarrow> row = [] \<or> strip (row ! 0) = []"
  by (simp add: blank_def strip_empty_iff list_all_iff)

lemma attempts_Nil: "attempts p [] = []"
  by (simp add: attempts_def)

lemma attempts_Cons:
  "attempts p (row # rows) =
     (if blank row then attempts (Suc p) rows
      else InsertIgnore (strip (row ! 0)) (str ''post'') p # attempts (Suc p) rows)"
  by (simp add: attempts_def)

lemma apply_all_Nil: "apply_all [] t = t"
  by (simp add: apply_all_def)

lemma apply_all_Cons: "apply_all (st # sts) t = apply_all sts (fst (run_statement st t))"
  by (simp add: apply_all_def)

lemma execute_Returned:
  "execute F k st s = (Returned, s1) \<Longrightarrow>
     trace s1 = trace s @ [Execute st] \<and> working s1 = fst (run_statement st (working s)) \<and>
     committed s1 = committed s \<and> conn_open s1 = conn_open s \<and> cur_open s1 = cur_open s \<and>
     stdout s1 = stdout s \<and> execute_fault F k = None"
  by (auto simp: execute_def split: option.splits)

lemma execute_Raised:
  "execute F k st s = (Raised e, s1) \<Longrightarrow>
     trace s1 = trace s \<and> committed s1 = committed s \<and> conn_open s1 = conn_open s \<and>
     cur_open s1 = cur_open s \<and> stdout s1 = stdout s \<and> execute_fault F k = Some e"
  by (auto simp: execute_def split: option.splits)

lemma for_rows_shape: "for_rows F rs p c s = (Inr n, s') \<Longrightarrow> \<exists>rows. rs = map Row rows"
proof (induction F rs p c s rule: for_rows.induct)
  case (1 F position count s)
  then show ?case by simp
next
  case (2 F e rest position count s)
  then show ?case by simp
next
  case (3 F row rest position count s)
  have "\<exists>rows. rest = map Row rows"
  proof (cases "row = [] \<or> strip (row ! 0) = []")
    case True
    with 3 show ?thesis by simp
  next
    case False
    with 3 show ?thesis
      by (auto split: prod.splits outcome.splits)
  qed
  then obtain rows where "rest = map Row rows" ..
  then have "Row row # rest = map Row (row # rows)" by simp
  then show ?case by (rule exI)
qed

lemma for_rows_Inr:
  "for_rows F (map Row rows) p c s = (Inr n, s') \<Longrightarrow>
     n = c + length (attempts p rows) \<and>
     trace s' = trace s @ map Execute (attempts p rows) \<and>
     working s' = apply_all (attempts p rows) (working s) \<and>
     committed s' = committed s \<and> conn_open s' = conn_open s \<and> cur_open s' = cur_open s \<and>
     stdout s' = stdout s"
proof (induction rows arbitrary: p c s)
  case Nil
  then show ?case by (simp add: attempts_Nil apply_all_Nil)
next
  case (Cons row rows)
  show ?case
  proof (cases "blank row")
    case True
    with Cons.prems have "for_rows F (map Row rows) (Suc p) c s = (Inr n, s')"
      by (simp add: blank_iff)
    from Cons.IH [OF this] True show ?thesis
      by (simp add: attempts_Cons)
  next
    case False
    let ?st = "InsertIgnore (strip (row ! 0)) (str ''post'') p"
    from False Cons.prems obtain s1 where
      ex: "execute F c ?st s = (Returned, s1)" and
      rest: "for_rows F (map Row rows) (Suc p) (Suc c) s1 = (Inr n, s')"
      by (auto simp: blank_iff split: prod.splits outcome.splits)
    from Cons.IH [OF rest] execute_Returned [OF ex] False show ?thesis
      by (simp add: attempts_Cons apply_all_Cons)
  qed
qed

lemma for_rows_frame:
  "for_rows F rs p c s = (r, s') \<Longrightarrow>
     committed s' = committed s \<and> conn_open s' = conn_open s \<and> cur_open s' = cur_open s \<and>
     stdout s' = stdout s \<and> (\<exists>sts. trace s' = trace s @ map Execute sts)"
proof (induction F rs p c s rule: for_rows.induct)
  case (1 F position count s)
  then show ?case by simp
next
  case (2 F e rest position count s)
  then show ?case by simp
next
  case (3 F row rest position count s)
  show ?case
  proof (cases "row = [] \<or> strip (row ! 0) = []")
    case True
    with 3 show ?thesis by simp
  next
    case False
    let ?st = "InsertIgnore (strip (row ! 0)) (str ''post'') position"
    obtain o1 s1 where ex: "execute F count ?st s = (o1, s1)" by (cases "execute F count ?st s")
    show ?thesis
    proof (cases o1)
      case Returned
      with ex False "3.prems" have
        rest: "for_rows F rest (position + 1) (count + 1) s1 = (r, s')" by simp
      from "3.IH"(2) [OF False _ _ rest] ex Returned obtain sts where
        "committed s' = committed s1" "conn_open s' = conn_open s1" "cur_open s' = cur_open s1"
        "stdout s' = stdout s1" "trace s' = trace s1 @ map Execute sts"
        by auto
      with execute_Returned [OF ex [unfolded Returned]] have
        "committed s' = committed s \<and> conn_open s' = conn_open s \<and> cur_open s' = cur_open s \<and>
         stdout s' = stdout s \<and> trace s' = trace s @ map Execute (?st # sts)"
        by simp
      then show ?thesis by blast
    next
      case (Raised e)
      with ex False "3.prems" have "s' = s1" by simp
      with execute_Raised [OF ex [unfolded Raised]] show ?thesis by simp
    qed
  qed
qed

lemma for_rows_no_faults:
  "\<forall>k. execute_fault F k = None \<Longrightarrow> \<exists>n s'. for_rows F (map Row rows) p c s = (Inr n, s')"
  by (induction rows arbitrary: p c s) (auto simp: execute_def)

section \<open>The table after the expected statements\<close>

lemma executed_append: "executed (xs @ ys) = executed xs @ executed ys"
  by (induction xs rule: executed.induct) simp_all

lemma executed_map_Execute: "executed (map Execute sts) = sts"
  by (induction sts) simp_all

lemma set_attempts:
  "set (attempts p rows) =
     {InsertIgnore (strip (rows ! i ! 0)) (str ''post'') (p + i) | i.
        i < length rows \<and> \<not> blank (rows ! i)}"
proof (induction rows arbitrary: p)
  case Nil
  show ?case by (simp add: attempts_Nil)
next
  case (Cons row rows)
  let ?S = "\<lambda>p rows. {InsertIgnore (strip (rows ! i ! 0)) (str ''post'') (p + i) | i.
        i < length rows \<and> \<not> blank (rows ! i)}"
  have shift: "?S p (row # rows) =
      (if blank row then {} else {InsertIgnore (strip (row ! 0)) (str ''post'') p}) \<union>
      ?S (Suc p) rows"
  proof (intro set_eqI iffI)
    fix x assume "x \<in> ?S p (row # rows)"
    then obtain i where i: "i < length (row # rows)" "\<not> blank ((row # rows) ! i)"
      "x = InsertIgnore (strip ((row # rows) ! i ! 0)) (str ''post'') (p + i)" by blast
    show "x \<in> (if blank row then {} else {InsertIgnore (strip (row ! 0)) (str ''post'') p}) \<union>
      ?S (Suc p) rows"
    proof (cases i)
      case 0
      with i show ?thesis by simp
    next
      case (Suc j)
      with i have "j < length rows" "\<not> blank (rows ! j)"
        "x = InsertIgnore (strip (rows ! j ! 0)) (str ''post'') (Suc p + j)" by simp_all
      then have "x \<in> ?S (Suc p) rows" by blast
      then show ?thesis by simp
    qed
  next
    fix x
    assume "x \<in> (if blank row then {} else {InsertIgnore (strip (row ! 0)) (str ''post'') p}) \<union>
      ?S (Suc p) rows"
    then consider (a) "\<not> blank row" "x = InsertIgnore (strip (row ! 0)) (str ''post'') p"
      | (b) "x \<in> ?S (Suc p) rows" by (auto split: if_splits)
    then show "x \<in> ?S p (row # rows)"
    proof cases
      case a
      then have "0 < length (row # rows) \<and> \<not> blank ((row # rows) ! 0) \<and>
        x = InsertIgnore (strip ((row # rows) ! 0 ! 0)) (str ''post'') (p + 0)" by simp
      then show ?thesis by blast
    next
      case b
      then obtain j where "j < length rows" "\<not> blank (rows ! j)"
        "x = InsertIgnore (strip (rows ! j ! 0)) (str ''post'') (Suc p + j)" by blast
      then have "Suc j < length (row # rows) \<and> \<not> blank ((row # rows) ! Suc j) \<and>
        x = InsertIgnore (strip ((row # rows) ! Suc j ! 0)) (str ''post'') (p + Suc j)" by simp
      then show ?thesis by blast
    qed
  qed
  show ?case unfolding shift using Cons.IH [of "Suc p"]
    by (simp add: attempts_Cons)
qed

lemma length_attempts: "length (attempts p rows) = length (filter (\<lambda>r. \<not> blank r) rows)"
  by (induction rows arbitrary: p) (simp_all add: attempts_Nil attempts_Cons)

lemma apply_all_attempts_ids:
  "fst ` set (apply_all (attempts p rows) t) =
     fst ` set t \<union> {strip (r ! 0) | r. r \<in> set rows \<and> \<not> blank r}"
proof (induction rows arbitrary: p t)
  case Nil
  show ?case by (simp add: attempts_Nil apply_all_Nil)
next
  case (Cons row rows)
  show ?case
  proof (cases "blank row")
    case True
    with Cons.IH [of "Suc p" t] show ?thesis
      by (auto simp: attempts_Cons)
  next
    case False
    let ?t1 = "insert_ignore (strip (row ! 0), str ''post'', p) t"
    have "fst ` set ?t1 = insert (strip (row ! 0)) (fst ` set t)"
      by (auto simp: insert_ignore_def)
    with Cons.IH [of "Suc p" ?t1] False show ?thesis
      by (auto simp: attempts_Cons apply_all_Cons)
  qed
qed

lemma apply_all_attempts_noop:
  "(\<forall>r\<in>set rows. \<not> blank r \<longrightarrow> strip (r ! 0) \<in> fst ` set t) \<Longrightarrow>
     apply_all (attempts p rows) t = t"
proof (induction rows arbitrary: p)
  case Nil
  show ?case by (simp add: attempts_Nil apply_all_Nil)
next
  case (Cons row rows)
  then show ?case
    by (simp add: attempts_Cons apply_all_Cons insert_ignore_def)
qed

lemma apply_all_attempts_added:
  "\<exists>added. apply_all (attempts p rows) t = t @ added \<and>
     length added \<le> length (attempts p rows) \<and>
     (\<forall>e\<in>set added. fst e \<notin> fst ` set t \<and>
        InsertIgnore (fst e) (fst (snd e)) (snd (snd e)) \<in> set (attempts p rows))"
proof (induction rows arbitrary: p t)
  case Nil
  show ?case by (simp add: attempts_Nil apply_all_Nil)
next
  case (Cons row rows)
  show ?case
  proof (cases "blank row")
    case True
    with Cons.IH [of "Suc p" t] show ?thesis by (simp add: attempts_Cons)
  next
    case False
    let ?e = "(strip (row ! 0), str ''post'', p)"
    let ?t1 = "insert_ignore ?e t"
    from Cons.IH [of "Suc p" ?t1] obtain added where
      a: "apply_all (attempts (Suc p) rows) ?t1 = ?t1 @ added"
        "length added \<le> length (attempts (Suc p) rows)"
        "\<forall>e\<in>set added. fst e \<notin> fst ` set ?t1 \<and>
           InsertIgnore (fst e) (fst (snd e)) (snd (snd e)) \<in> set (attempts (Suc p) rows)"
      by blast
    show ?thesis
    proof (cases "strip (row ! 0) \<in> fst ` set t")
      case True
      then have "?t1 = t" by (simp add: insert_ignore_def)
      with a False have "apply_all (attempts p (row # rows)) t = t @ added \<and>
        length added \<le> length (attempts p (row # rows)) \<and>
        (\<forall>e\<in>set added. fst e \<notin> fst ` set t \<and>
          InsertIgnore (fst e) (fst (snd e)) (snd (snd e)) \<in> set (attempts p (row # rows)))"
        by (simp add: attempts_Cons apply_all_Cons)
      then show ?thesis by blast
    next
      case new: False
      then have t1: "?t1 = t @ [?e]" by (simp add: insert_ignore_def)
      with a False new have "apply_all (attempts p (row # rows)) t = t @ (?e # added) \<and>
        length (?e # added) \<le> length (attempts p (row # rows)) \<and>
        (\<forall>e\<in>set (?e # added). fst e \<notin> fst ` set t \<and>
          InsertIgnore (fst e) (fst (snd e)) (snd (snd e)) \<in> set (attempts p (row # rows)))"
        by (simp add: attempts_Cons apply_all_Cons)
      then show ?thesis by blast
    qed
  qed
qed

lemma apply_all_attempts_fresh:
  "i < length rows \<Longrightarrow> \<not> blank (rows ! i) \<Longrightarrow> strip (rows ! i ! 0) \<notin> fst ` set t \<Longrightarrow>
   (\<forall>j<i. \<not> blank (rows ! j) \<longrightarrow> strip (rows ! j ! 0) \<noteq> strip (rows ! i ! 0)) \<Longrightarrow>
     (strip (rows ! i ! 0), str ''post'', p + i) \<in> set (apply_all (attempts p rows) t)"
proof (induction rows arbitrary: p t i)
  case Nil
  then show ?case by simp
next
  case (Cons row rows)
  show ?case
  proof (cases i)
    case 0
    let ?e = "(strip (row ! 0), str ''post'', p)"
    from 0 Cons.prems have nb: "\<not> blank row" and new: "strip (row ! 0) \<notin> fst ` set t" by simp_all
    from apply_all_attempts_added [of "Suc p" rows "t @ [?e]"] obtain added where
      "apply_all (attempts (Suc p) rows) (t @ [?e]) = (t @ [?e]) @ added" by blast
    with nb new 0 show ?thesis
      by (simp add: attempts_Cons apply_all_Cons insert_ignore_def)
  next
    case (Suc k)
    with Cons.prems have k: "k < length rows" "\<not> blank (rows ! k)"
      "strip (rows ! k ! 0) \<notin> fst ` set t" by simp_all
    have earlier: "\<forall>j<k. \<not> blank (rows ! j) \<longrightarrow> strip (rows ! j ! 0) \<noteq> strip (rows ! k ! 0)"
    proof (intro allI impI)
      fix j assume "j < k" "\<not> blank (rows ! j)"
      with Cons.prems(4) Suc have "\<not> blank ((row # rows) ! Suc j) \<longrightarrow>
        strip ((row # rows) ! Suc j ! 0) \<noteq> strip ((row # rows) ! Suc k ! 0)"
        by (metis Suc_less_eq)
      with \<open>\<not> blank (rows ! j)\<close> show "strip (rows ! j ! 0) \<noteq> strip (rows ! k ! 0)" by simp
    qed
    show ?thesis
    proof (cases "blank row")
      case True
      with Cons.IH [OF k earlier, of "Suc p"] Suc show ?thesis
        by (simp add: attempts_Cons)
    next
      case False
      let ?t1 = "insert_ignore (strip (row ! 0), str ''post'', p) t"
      from Cons.prems(4) Suc False have "strip (row ! 0) \<noteq> strip (rows ! k ! 0)"
        by (metis nth_Cons_0 nth_Cons_Suc zero_less_Suc)
      with k(3) have "strip (rows ! k ! 0) \<notin> fst ` set ?t1"
        by (auto simp: insert_ignore_def)
      from Cons.IH [OF k(1,2) this earlier, of "Suc p"] False Suc show ?thesis
        by (simp add: attempts_Cons apply_all_Cons)
    qed
  qed
qed

section \<open>The calls of the try block\<close>

lemma first_error_append:
  "first_error (xs @ ys) = (case first_error xs of None \<Rightarrow> first_error ys | Some e \<Rightarrow> Some e)"
  by (induction xs rule: first_error.induct) simp_all

lemma attempted_append:
  "attempted (xs @ ys) =
     (case first_error xs of None \<Rightarrow> map fst xs @ attempted ys | Some e \<Rightarrow> attempted xs)"
  by (induction xs rule: first_error.induct) (simp_all split: option.splits)

lemma attempted_no_error: "first_error xs = None \<Longrightarrow> attempted xs = map fst xs"
  by (induction xs rule: first_error.induct) simp_all

lemma set_attempted: "set (attempted xs) \<subseteq> fst ` set xs"
  by (induction xs rule: attempted.induct) auto

lemma row_calls_kinds: "fst ` set (row_calls F rs k) \<subseteq> {ReadCall, ExecuteCall}"
  by (induction F rs k rule: row_calls.induct) auto

lemma for_rows_calls:
  "for_rows F rs p c s = (res, s') \<Longrightarrow>
     first_error (row_calls F rs c) = (case res of Inl e \<Rightarrow> Some e | Inr n \<Rightarrow> None) \<and>
     pending s' = (pending s \<or> ExecuteCall \<in> set (attempted (row_calls F rs c)))"
proof (induction F rs p c s rule: for_rows.induct)
  case (1 F position count s)
  then show ?case by auto
next
  case (2 F e rest position count s)
  then show ?case by auto
next
  case (3 F row rest position count s)
  show ?case
  proof (cases "row = [] \<or> strip (row ! 0) = []")
    case True
    with 3 show ?thesis by (simp add: blank_iff)
  next
    case False
    let ?st = "InsertIgnore (strip (row ! 0)) (str ''post'') position"
    obtain o1 s1 where ex: "execute F count ?st s = (o1, s1)" by (cases "execute F count ?st s")
    show ?thesis
    proof (cases o1)
      case Returned
      with ex False "3.prems" have
        rest: "for_rows F rest (position + 1) (count + 1) s1 = (res, s')" by simp
      from ex Returned have "execute_fault F count = None" "pending s1"
        by (auto simp: execute_def split: option.splits)
      with "3.IH"(2) [OF False _ _ rest] ex Returned False
      show ?thesis by (simp add: blank_iff)
    next
      case (Raised e)
      with ex False "3.prems" have "res = Inl e" "s' = s1" by simp_all
      moreover from ex Raised have "execute_fault F count = Some e" "pending s1"
        by (auto simp: execute_def split: option.splits)
      ultimately show ?thesis using False by (simp add: blank_iff)
    qed
  qed
qed

lemma commit_cases:
  obtains (fails) e where "commit_fault F = Some e" "commit F s = (Raised e, s)"
  | (ok) "commit_fault F = None"
      "commit F s = (Returned, s\<lparr>committed := working s, pending := False,
                                   trace := trace s @ [Commit]\<rparr>)"
  by (cases "commit_fault F") (auto simp: commit_def)

lemma print_line_cases:
  obtains (fails) e where "print_fault F = Some e" "print_line F l s = (Raised e, s)"
  | (ok) "print_fault F = None" "print_line F l s = (Returned, s\<lparr>stdout := stdout s @ [l]\<rparr>)"
  by (cases "print_fault F") (auto simp: print_line_def)

section \<open>Runs of the loader\<close>

lemma attempted_single: "attempted [(c, x)] = [c]"
  by (cases x) simp_all

text \<open>The ways out of the \<open>try\<close> block of the loader.\<close>

lemma load_try_cases:
  assumes "load_try F csv s = (r, s')"
  obtains
    (returns) header rows where
      "r = Returned" "csv = Row header # map Row rows"
      "trace s' = trace s @ [OpenFile] @ map Execute (attempts 0 rows) @ [CloseFile, Commit]"
      "committed s' = apply_all (attempts 0 rows) (working s)"
      "stdout s' = stdout s @ [Loaded (length (attempts 0 rows))]"
      "first_error (try_calls F csv) = None"
      "PrintCall \<in> set (attempted (try_calls F csv))"
  | (printing) e header rows where
      "r = Raised e" "csv = Row header # map Row rows"
      "trace s' = trace s @ [OpenFile] @ map Execute (attempts 0 rows) @ [CloseFile, Commit]"
      "committed s' = apply_all (attempts 0 rows) (working s)"
      "stdout s' = stdout s" "\<not> pending s'"
      "first_error (try_calls F csv) = Some e"
      "PrintCall \<in> set (attempted (try_calls F csv))"
  | (abort) e sts where
      "r = Raised e" "committed s' = committed s" "stdout s' = stdout s"
      "trace s' = trace s @ map Execute sts \<or>
       trace s' = trace s @ [OpenFile] @ map Execute sts @ [CloseFile]"
      "pending s' = (pending s \<or> ExecuteCall \<in> set (attempted (try_calls F csv)))"
      "first_error (try_calls F csv) = Some e"
      "PrintCall \<notin> set (attempted (try_calls F csv))"
proof (cases "open_fault F")
  case (Some e)
  with assms have "r = Raised e" "s' = s" by (simp_all add: load_try_def)
  with Some show ?thesis
    by (intro abort [of e "[]"]) (simp_all add: try_calls_def)
next
  case None
  show ?thesis
  proof (cases csv)
    case Nil
    with None assms have "r = Raised StopIteration" "s' = close_file (open_file s)"
      by (simp_all add: load_try_def)
    with None Nil show ?thesis
      by (intro abort [of StopIteration "[]"])
         (simp_all add: close_file_def open_file_def try_calls_def)
  next
    case (Cons item rest)
    show ?thesis
    proof (cases item)
      case (ReadFails e)
      with Cons None assms have "r = Raised e" "s' = close_file (open_file s)"
        by (simp_all add: load_try_def)
      with None Cons ReadFails show ?thesis
        by (intro abort [of e "[]"])
           (simp_all add: close_file_def open_file_def try_calls_def)
    next
      case (Row header)
      let ?rc = "row_calls F rest 0"
      let ?tail = "[(CommitCall, commit_fault F), (PrintCall, print_fault F)]"
      have calls: "try_calls F csv = (OpenCall, None) # (ReadCall, None) # ?rc @ ?tail"
        using None Cons Row by (simp add: try_calls_def)
      have kinds: "PrintCall \<notin> set (attempted ?rc)" "PrintCall \<notin> fst ` set ?rc"
        using set_attempted [of ?rc] row_calls_kinds [of F rest 0] by auto
      obtain r1 s1 where loop: "for_rows F rest 0 0 (open_file s) = (r1, s1)"
        by (cases "for_rows F rest 0 0 (open_file s)")
      note lc = for_rows_calls [OF loop]
      show ?thesis
      proof (cases r1)
        case (Inl e)
        with assms None Cons Row loop have r: "r = Raised e" and s': "s' = close_file s1"
          by (simp_all add: load_try_def)
        from for_rows_frame [OF loop] obtain sts where
          fr: "committed s1 = committed s" "stdout s1 = stdout s"
            "trace s1 = trace s @ OpenFile # map Execute sts"
          by (auto simp: open_file_def)
        from lc Inl have fe: "first_error ?rc = Some e"
          and pe: "pending s1 = (pending s \<or> ExecuteCall \<in> set (attempted ?rc))"
          by (simp_all add: open_file_def)
        have att: "attempted (try_calls F csv) = OpenCall # ReadCall # attempted ?rc"
          by (simp add: calls attempted_append fe)
        show ?thesis
        proof (intro abort [of e sts])
          show "r = Raised e" by (rule r)
          show "committed s' = committed s" "stdout s' = stdout s"
            by (simp_all add: s' close_file_def fr)
          show "trace s' = trace s @ map Execute sts \<or>
            trace s' = trace s @ [OpenFile] @ map Execute sts @ [CloseFile]"
            by (simp add: s' close_file_def fr)
          show "pending s' = (pending s \<or> ExecuteCall \<in> set (attempted (try_calls F csv)))"
            by (simp add: s' close_file_def pe att)
          show "first_error (try_calls F csv) = Some e"
            by (simp add: calls first_error_append fe)
          show "PrintCall \<notin> set (attempted (try_calls F csv))"
            using kinds by (simp add: att)
        qed
      next
        case (Inr n)
        from for_rows_shape [OF loop [unfolded Inr]] obtain rows where rest: "rest = map Row rows" ..
        note L = for_rows_Inr [OF loop [unfolded Inr rest]]
        from lc Inr have fe: "first_error ?rc = None"
          and pe: "pending s1 = (pending s \<or> ExecuteCall \<in> set (attempted ?rc))"
          by (simp_all add: open_file_def)
        have csv: "csv = Row header # map Row rows" using Cons Row rest by simp
        have s1: "trace s1 = trace s @ [OpenFile] @ map Execute (attempts 0 rows)"
          "working s1 = apply_all (attempts 0 rows) (working s)"
          "committed s1 = committed s" "stdout s1 = stdout s" "n = length (attempts 0 rows)"
          using L by (simp_all add: open_file_def)
        from assms None Cons Row loop Inr have
          body: "(case commit F (close_file s1) of
                    (Raised e, s2) \<Rightarrow> (Raised e, s2)
                  | (Returned, s2) \<Rightarrow> print_line F (Loaded n) s2) = (r, s')"
          by (simp add: load_try_def)
        show ?thesis
        proof (cases rule: commit_cases [of F "close_file s1"])
          case (fails e)
          with body have r: "r = Raised e" and s': "s' = close_file s1" by simp_all
          have att: "attempted (try_calls F csv) =
              OpenCall # ReadCall # map fst ?rc @ [CommitCall]"
            using fails(1) by (simp add: calls attempted_append fe attempted_no_error)
          show ?thesis
          proof (intro abort [of e "attempts 0 rows"])
            show "r = Raised e" by (rule r)
            show "committed s' = committed s" "stdout s' = stdout s"
              by (simp_all add: s' close_file_def s1)
            show "trace s' = trace s @ map Execute (attempts 0 rows) \<or>
              trace s' = trace s @ [OpenFile] @ map Execute (attempts 0 rows) @ [CloseFile]"
              by (simp add: s' close_file_def s1)
            show "pending s' = (pending s \<or> ExecuteCall \<in> set (attempted (try_calls F csv)))"
              by (simp add: s' close_file_def pe att attempted_no_error [OF fe])
            show "first_error (try_calls F csv) = Some e"
              using fails(1) by (simp add: calls first_error_append fe)
            show "PrintCall \<notin> set (attempted (try_calls F csv))"
              using kinds by (simp add: att)
          qed
        next
          case ok
          let ?s2 = "(close_file s1)\<lparr>committed := working (close_file s1), pending := False,
                                   trace := trace (close_file s1) @ [Commit]\<rparr>"
          from body ok have pr: "print_line F (Loaded n) ?s2 = (r, s')" by simp
          have att: "PrintCall \<in> set (attempted (try_calls F csv))"
            using ok(1) by (simp add: calls attempted_append fe attempted_single)
          show ?thesis
          proof (cases rule: print_line_cases [of F "Loaded n" ?s2])
            case (fails e)
            with pr have r: "r = Raised e" and s': "s' = ?s2" by simp_all
            show ?thesis
            proof (intro printing [of e header rows])
              show "r = Raised e" by (rule r)
              show "csv = Row header # map Row rows" by (rule csv)
              show "trace s' = trace s @ [OpenFile] @ map Execute (attempts 0 rows) @
                [CloseFile, Commit]"
                by (simp add: s' close_file_def s1)
              show "committed s' = apply_all (attempts 0 rows) (working s)"
                by (simp add: s' close_file_def s1)
              show "stdout s' = stdout s" by (simp add: s' close_file_def s1)
              show "\<not> pending s'" by (simp add: s')
              show "first_error (try_calls F csv) = Some e"
                using ok(1) fails(1) by (simp add: calls first_error_append fe)
              show "PrintCall \<in> set (attempted (try_calls F csv))" by (rule att)
            qed
          next
            case ok': ok
            with pr have r: "r = Returned" and s': "s' = ?s2\<lparr>stdout := stdout ?s2 @ [Loaded n]\<rparr>"
              by simp_all
            show ?thesis
            proof (intro returns [of header rows])
              show "r = Returned" by (rule r)
              show "csv = Row header # map Row rows" by (rule csv)
              show "trace s' = trace s @ [OpenFile] @ map Execute (attempts 0 rows) @
                [CloseFile, Commit]"
                by (simp add: s' close_file_def s1)
              show "committed s' = apply_all (attempts 0 rows) (working s)"
                by (simp add: s' close_file_def s1)
              show "stdout s' = stdout s @ [Loaded (length (attempts 0 rows))]"
                by (simp add: s' close_file_def s1)
              show "first_error (try_calls F csv) = None"
                using ok(1) ok'(1) by (simp add: calls first_error_append fe)
              show "PrintCall \<in> set (attempted (try_calls F csv))" by (rule att)
            qed
          qed
        qed
      qed
    qed
  qed
qed

lemma rollback_cases:
  obtains (fails) e where "pending s" "rollback_fault F = Some e" "rollback F s = (Raised e, s)"
  | (ok) s2 where "\<not> pending s \<or> rollback_fault F = None" "rollback F s = (Returned, s2)"
      "trace s2 = trace s @ [Rollback]" "committed s2 = committed s" "stdout s2 = stdout s"
  by (cases "pending s"; cases "rollback_fault F") (auto simp: rollback_def)

lemma closed_fields:
  "\<not> conn_open (conn_close (cursor_close s))" "\<not> cur_open (conn_close (cursor_close s))"
  "trace (conn_close (cursor_close s)) = trace s @ [CursorClose, ConnClose]"
  "committed (conn_close (cursor_close s)) = committed s"
  "stdout (conn_close (cursor_close s)) = stdout s"
  by (simp_all add: conn_close_def cursor_close_def)

lemma acquired_fields:
  "trace (acquired t) = [Connect, Cursor]" "committed (acquired t) = t" "working (acquired t) = t"
  "stdout (acquired t) = []" "\<not> pending (acquired t)"
  by (simp_all add: acquired_def start_def)

lemma load_coldstart_acquired:
  assumes "connect_fault F (DB_CONFIG env) = None" "cursor_fault F = None"
  shows "load_coldstart F env csv t =
     (case load_try F csv (acquired t) of
        (Raised e, s1) \<Rightarrow>
          (case rollback F s1 of
             (Raised e', s2) \<Rightarrow> (Raised e', conn_close (cursor_close s2))
           | (Returned, s2) \<Rightarrow> (Raised e, conn_close (cursor_close s2)))
      | (Returned, s1) \<Rightarrow> (Returned, conn_close (cursor_close s1)))"
  using assms by (simp add: load_coldstart_def connect_def cursor_def acquired_def start_def)

lemma load_coldstart_not_acquired:
  assumes "connect_fault F (DB_CONFIG env) \<noteq> None \<or> cursor_fault F \<noteq> None"
  shows "\<exists>e s. load_coldstart F env csv t = (Raised e, s) \<and> committed s = t \<and>
           stdout s = [] \<and> set (trace s) \<subseteq> {Connect}"
  using assms
  by (cases "connect_fault F (DB_CONFIG env)"; cases "cursor_fault F")
     (auto simp: load_coldstart_def connect_def cursor_def start_def)

lemma load_coldstart_Returned:
  assumes "load_coldstart F env csv t = (Returned, s)"
  shows "\<exists>header rows. csv = Row header # map Row rows \<and>
           trace s = [Connect, Cursor, OpenFile] @ map Execute (attempts 0 rows) @
                     [CloseFile, Commit, CursorClose, ConnClose] \<and>
           committed s = apply_all (attempts 0 rows) t \<and>
           stdout s = [Loaded (length (attempts 0 rows))] \<and>
           \<not> conn_open s \<and> \<not> cur_open s"
proof -
  have "connect_fault F (DB_CONFIG env) = None \<and> cursor_fault F = None"
  proof (rule ccontr)
    assume "\<not> (connect_fault F (DB_CONFIG env) = None \<and> cursor_fault F = None)"
    then have "connect_fault F (DB_CONFIG env) \<noteq> None \<or> cursor_fault F \<noteq> None" by simp
    from load_coldstart_not_acquired [OF this, of csv t] assms show False by auto
  qed
  then have acq: "connect_fault F (DB_CONFIG env) = None" "cursor_fault F = None" by simp_all
  obtain r1 s1 where lt: "load_try F csv (acquired t) = (r1, s1)"
    by (cases "load_try F csv (acquired t)")
  with assms load_coldstart_acquired [OF acq, of csv t] have
    r1: "r1 = Returned" and s: "s = conn_close (cursor_close s1)"
    by (auto split: outcome.splits prod.splits)
  from lt r1 show ?thesis
  proof (cases rule: load_try_cases)
    case (returns header rows)
    then have "csv = Row header # map Row rows \<and>
           trace s = [Connect, Cursor, OpenFile] @ map Execute (attempts 0 rows) @
                     [CloseFile, Commit, CursorClose, ConnClose] \<and>
           committed s = apply_all (attempts 0 rows) t \<and>
           stdout s = [Loaded (length (attempts 0 rows))] \<and>
           \<not> conn_open s \<and> \<not> cur_open s"
      by (simp add: s closed_fields acquired_fields)
    then show ?thesis by blast
  qed simp_all
qed

lemma load_coldstart_rows:
  assumes "load_coldstart F env (Row header # map Row rows) t = (Returned, s)"
  shows "trace s = [Connect, Cursor, OpenFile] @ map Execute (attempts 0 rows) @
                     [CloseFile, Commit, CursorClose, ConnClose]"
    and "committed s = apply_all (attempts 0 rows) t"
    and "stdout s = [Loaded (length (attempts 0 rows))]"
    and "executed (trace s) = attempts 0 rows"
proof -
  from load_coldstart_Returned [OF assms] obtain header' rows' where
    eq: "Row header # map Row rows = Row header' # map Row rows'" and
    tr: "trace s = [Connect, Cursor, OpenFile] @ map Execute (attempts 0 rows') @
                     [CloseFile, Commit, CursorClose, ConnClose]" and
    co: "committed s = apply_all (attempts 0 rows') t" and
    out: "stdout s = [Loaded (length (attempts 0 rows'))]"
    by blast
  have "inj Row" by (simp add: inj_on_def)
  with eq have "rows' = rows" by (simp add: inj_map_eq_map)
  with tr co out show
    "trace s = [Connect, Cursor, OpenFile] @ map Execute (attempts 0 rows) @
                     [CloseFile, Commit, CursorClose, ConnClose]"
    "committed s = apply_all (attempts 0 rows) t"
    "stdout s = [Loaded (length (attempts 0 rows))]"
    by simp_all
  then show "executed (trace s) = attempts 0 rows"
    by (simp add: executed_append executed_map_Execute)
qed

lemma Execute_in_trace:
  assumes "load_coldstart F env (Row header # map Row rows) t = (Returned, s)"
  shows "Execute st \<in> set (trace s) \<longleftrightarrow> st \<in> set (attempts 0 rows)"
  using load_coldstart_rows(1) [OF assms] by auto

lemma load_try_trace:
  assumes "load_try F csv s = (r, s')"
  shows "\<exists>evs. trace s' = trace s @ evs \<and> Rollback \<notin> set evs \<and> CursorClose \<notin> set evs \<and>
           ConnClose \<notin> set evs"
  using assms
proof (cases rule: load_try_cases)
  case (returns header rows)
  let ?evs = "[OpenFile] @ map Execute (attempts 0 rows) @ [CloseFile, Commit]"
  have "trace s' = trace s @ ?evs \<and> Rollback \<notin> set ?evs \<and> CursorClose \<notin> set ?evs \<and>
      ConnClose \<notin> set ?evs"
    using returns(3) by auto
  then show ?thesis by (rule exI)
next
  case (printing e header rows)
  let ?evs = "[OpenFile] @ map Execute (attempts 0 rows) @ [CloseFile, Commit]"
  have "trace s' = trace s @ ?evs \<and> Rollback \<notin> set ?evs \<and> CursorClose \<notin> set ?evs \<and>
      ConnClose \<notin> set ?evs"
    using printing(3) by auto
  then show ?thesis by (rule exI)
next
  case (abort e sts)
  from abort(4) show ?thesis
  proof
    assume a: "trace s' = trace s @ map Execute sts"
    have "trace s' = trace s @ map Execute sts \<and> Rollback \<notin> set (map Execute sts) \<and>
      CursorClose \<notin> set (map Execute sts) \<and> ConnClose \<notin> set (map Execute sts)"
      using a by auto
    then show ?thesis by (rule exI)
  next
    let ?evs = "[OpenFile] @ map Execute sts @ [CloseFile]"
    assume a: "trace s' = trace s @ ?evs"
    have "trace s' = trace s @ ?evs \<and> Rollback \<notin> set ?evs \<and> CursorClose \<notin> set ?evs \<and>
      ConnClose \<notin> set ?evs"
      using a by auto
    then show ?thesis by (rule exI)
  qed
qed

lemma load_coldstart_returns:
  assumes "connect_fault F (DB_CONFIG env) = None" "cursor_fault F = None" "open_fault F = None"
    "\<forall>k. execute_fault F k = None" "commit_fault F = None" "print_fault F = None"
  shows "fst (load_coldstart F env (Row header # map Row rows) t) = Returned"
proof -
  from for_rows_no_faults [OF assms(4), of rows 0 0 "open_file (acquired t)"] obtain n s1 where
    "for_rows F (map Row rows) 0 0 (open_file (acquired t)) = (Inr n, s1)" by blast
  then have "fst (load_try F (Row header # map Row rows) (acquired t)) = Returned"
    using assms(3,5,6) by (simp add: load_try_def commit_def print_line_def)
  then obtain s2 where "load_try F (Row header # map Row rows) (acquired t) = (Returned, s2)"
    by (cases "load_try F (Row header # map Row rows) (acquired t)") simp
  then show ?thesis
    by (simp add: load_coldstart_acquired [OF assms(1,2)])
qed

lemma takeWhile_until: "x \<notin> set pre \<Longrightarrow> takeWhile (\<lambda>ev. ev \<noteq> x) (pre @ x # post) = pre"
  by (induction pre) auto

lemma count_list_notin: "x \<notin> set xs \<Longrightarrow> count_list xs x = 0"
  by (induction xs) auto

text \<open>The ways a run of the loader ends once the connection and the cursor are acquired.\<close>

lemma load_run_cases:
  assumes acq: "connect_fault F (DB_CONFIG env) = None" "cursor_fault F = None"
    and run: "load_coldstart F env csv t = (r, s)"
  obtains
    (returned) header rows where
      "r = Returned" "csv = Row header # map Row rows"
      "trace s = ([Connect, Cursor, OpenFile] @ map Execute (attempts 0 rows) @ [CloseFile]) @
                 Commit # [CursorClose, ConnClose]"
      "committed s = apply_all (attempts 0 rows) t"
      "first_error (try_calls F csv) = None" "PrintCall \<in> set (attempted (try_calls F csv))"
  | (print_failed) e header rows where
      "r = Raised e" "csv = Row header # map Row rows"
      "trace s = ([Connect, Cursor, OpenFile] @ map Execute (attempts 0 rows) @ [CloseFile]) @
                 Commit # [Rollback, CursorClose, ConnClose]"
      "committed s = apply_all (attempts 0 rows) t"
      "first_error (try_calls F csv) = Some e" "PrintCall \<in> set (attempted (try_calls F csv))"
  | (rolled_back) e base where
      "r = Raised e" "trace s = [Connect, Cursor] @ base @ [Rollback, CursorClose, ConnClose]"
      "Commit \<notin> set base" "Rollback \<notin> set base" "committed s = t"
      "first_error (try_calls F csv) = Some e" "PrintCall \<notin> set (attempted (try_calls F csv))"
      "rollback_pending F csv \<longrightarrow> rollback_fault F = None"
  | (rollback_failed) e e0 base where
      "r = Raised e" "trace s = [Connect, Cursor] @ base @ [CursorClose, ConnClose]"
      "Commit \<notin> set base" "Rollback \<notin> set base" "committed s = t"
      "first_error (try_calls F csv) = Some e0" "PrintCall \<notin> set (attempted (try_calls F csv))"
      "rollback_pending F csv" "rollback_fault F = Some e"
proof -
  obtain r1 s1 where lt: "load_try F csv (acquired t) = (r1, s1)"
    by (cases "load_try F csv (acquired t)")
  note unfold = run [unfolded load_coldstart_acquired [OF acq] lt, simplified]
  from lt show ?thesis
  proof (cases rule: load_try_cases)
    case (returns header rows)
    with unfold have r: "r = Returned" and s: "s = conn_close (cursor_close s1)" by simp_all
    show ?thesis
    proof (intro returned [of header rows])
      show "r = Returned" by (rule r)
      show "csv = Row header # map Row rows" by (rule returns(2))
      show "trace s = ([Connect, Cursor, OpenFile] @ map Execute (attempts 0 rows) @ [CloseFile]) @
                 Commit # [CursorClose, ConnClose]"
        by (simp add: s closed_fields returns(3) acquired_fields)
      show "committed s = apply_all (attempts 0 rows) t"
        by (simp add: s closed_fields returns(4) acquired_fields)
      show "first_error (try_calls F csv) = None" by (rule returns(6))
      show "PrintCall \<in> set (attempted (try_calls F csv))" by (rule returns(7))
    qed
  next
    case (printing e header rows)
    from printing(6) obtain s2 where rb: "rollback F s1 = (Returned, s2)"
      "trace s2 = trace s1 @ [Rollback]" "committed s2 = committed s1"
      by (cases rule: rollback_cases [of s1 F]) simp_all
    with unfold printing(1) have r: "r = Raised e" and s: "s = conn_close (cursor_close s2)"
      by simp_all
    show ?thesis
    proof (intro print_failed [of e header rows])
      show "r = Raised e" by (rule r)
      show "csv = Row header # map Row rows" by (rule printing(2))
      show "trace s = ([Connect, Cursor, OpenFile] @ map Execute (attempts 0 rows) @ [CloseFile]) @
                 Commit # [Rollback, CursorClose, ConnClose]"
        by (simp add: s closed_fields rb printing(3) acquired_fields)
      show "committed s = apply_all (attempts 0 rows) t"
        by (simp add: s closed_fields rb printing(4) acquired_fields)
      show "first_error (try_calls F csv) = Some e" by (rule printing(7))
      show "PrintCall \<in> set (attempted (try_calls F csv))" by (rule printing(8))
    qed
  next
    case (abort e0 sts)
    from abort(5,7) have pend: "pending s1 = rollback_pending F csv"
      by (simp add: acquired_fields rollback_pending_def)
    obtain base where base: "trace s1 = [Connect, Cursor] @ base" "Commit \<notin> set base"
      "Rollback \<notin> set base"
    proof -
      from abort(4) show ?thesis
      proof
        assume "trace s1 = trace (acquired t) @ map Execute sts"
        then show ?thesis
          by (intro that [of "map Execute sts"]) (auto simp: acquired_fields)
      next
        assume "trace s1 = trace (acquired t) @ [OpenFile] @ map Execute sts @ [CloseFile]"
        then show ?thesis
          by (intro that [of "[OpenFile] @ map Execute sts @ [CloseFile]"])
             (auto simp: acquired_fields)
      qed
    qed
    show ?thesis
    proof (cases rule: rollback_cases [of s1 F])
      case (fails e)
      with unfold abort(1) have r: "r = Raised e" and s: "s = conn_close (cursor_close s1)"
        by simp_all
      show ?thesis
      proof (intro rollback_failed [of e base e0])
        show "r = Raised e" by (rule r)
        show "trace s = [Connect, Cursor] @ base @ [CursorClose, ConnClose]"
          by (simp add: s closed_fields base)
        show "Commit \<notin> set base" "Rollback \<notin> set base" by (rule base)+
        show "committed s = t" by (simp add: s closed_fields abort(2) acquired_fields)
        show "first_error (try_calls F csv) = Some e0" by (rule abort(6))
        show "PrintCall \<notin> set (attempted (try_calls F csv))" by (rule abort(7))
        show "rollback_pending F csv" using fails(1) pend by simp
        show "rollback_fault F = Some e" by (rule fails(2))
      qed
    next
      case (ok s2)
      with unfold abort(1) have r: "r = Raised e0" and s: "s = conn_close (cursor_close s2)"
        by simp_all
      show ?thesis
      proof (intro rolled_back [of e0 base])
        show "r = Raised e0" by (rule r)
        show "trace s = [Connect, Cursor] @ base @ [Rollback, CursorClose, ConnClose]"
          by (simp add: s closed_fields ok(3) base)
        show "Commit \<notin> set base" "Rollback \<notin> set base" by (rule base)+
        show "committed s = t" by (simp add: s closed_fields ok(4) abort(2) acquired_fields)
        show "first_error (try_calls F csv) = Some e0" by (rule abort(6))
        show "PrintCall \<notin> set (attempted (try_calls F csv))" by (rule abort(7))
        show "rollback_pending F csv \<longrightarrow> rollback_fault F = None"
          using ok(1) pend by simp
      qed
    qed
  qed
qed

section \<open>Runs of the eraser\<close>

lemma str_Nil: "str [] = []"
  by (simp add: str_def)

lemma delete_try_trace:
  "delete_try F s = (r, s') \<Longrightarrow>
     \<exists>evs. trace s' = trace s @ evs \<and> Rollback \<notin> set evs \<and> CursorClose \<notin> set evs \<and>
       ConnClose \<notin> set evs"
  by (auto simp: delete_try_def execute_def commit_def print_line_def split: option.splits)

lemma delete_coldstart_acquired:
  assumes "connect_fault F (DB_CONFIG env) = None" "cursor_fault F = None"
  shows "delete_coldstart F env t =
     (case delete_try F (acquired t) of
        (Raised e, s1) \<Rightarrow>
          (case rollback F s1 of
             (Raised e', s2) \<Rightarrow> (Raised e', conn_close (cursor_close s2))
           | (Returned, s2) \<Rightarrow> (Raised e, conn_close (cursor_close s2)))
      | (Returned, s1) \<Rightarrow> (Returned, conn_close (cursor_close s1)))"
  using assms by (simp add: delete_coldstart_def connect_def cursor_def acquired_def start_def)

lemma delete_coldstart_not_acquired:
  assumes "connect_fault F (DB_CONFIG env) \<noteq> None \<or> cursor_fault F \<noteq> None"
  shows "\<exists>e s. delete_coldstart F env t = (Raised e, s) \<and> committed s = t \<and>
           stdout s = [] \<and> set (trace s) \<subseteq> {Connect}"
  using assms
  by (cases "connect_fault F (DB_CONFIG env)"; cases "cursor_fault F")
     (auto simp: delete_coldstart_def connect_def cursor_def start_def)

lemma delete_coldstart_returns:
  assumes "connect_fault F (DB_CONFIG env) = None" "cursor_fault F = None"
    "execute_fault F 0 = None" "commit_fault F = None" "print_fault F = None"
  shows "fst (delete_coldstart F env t) = Returned"
  using assms by (simp add: delete_coldstart_def delete_try_def connect_def cursor_def
      execute_def commit_def print_line_def)

text \<open>How a run ends once the \<open>try\<close> block is left: the handler, then the \<open>finally\<close> clause.\<close>

lemma handler_trace:
  assumes "trace s1 = [Connect, Cursor] @ evs" "Rollback \<notin> set evs" "CursorClose \<notin> set evs"
    "ConnClose \<notin> set evs"
  shows "\<exists>mid. trace (snd (case rollback F s1 of
             (Raised e', s2) \<Rightarrow> (Raised e', conn_close (cursor_close s2))
           | (Returned, s2) \<Rightarrow> (Raised e, conn_close (cursor_close s2)))) =
            [Connect, Cursor] @ mid @ [CursorClose, ConnClose] \<and>
            CursorClose \<notin> set mid \<and> ConnClose \<notin> set mid"
proof (cases rule: rollback_cases [of s1 F])
  case (fails e')
  have "trace (conn_close (cursor_close s1)) = [Connect, Cursor] @ evs @ [CursorClose, ConnClose] \<and>
      CursorClose \<notin> set evs \<and> ConnClose \<notin> set evs"
    using assms by (simp add: closed_fields)
  then show ?thesis unfolding fails(3) by (simp del: append.simps)
next
  case (ok s2)
  have "trace (conn_close (cursor_close s2)) =
      [Connect, Cursor] @ (evs @ [Rollback]) @ [CursorClose, ConnClose] \<and>
      CursorClose \<notin> set (evs @ [Rollback]) \<and> ConnClose \<notin> set (evs @ [Rollback])"
    using assms ok(3) by (simp add: closed_fields)
  then show ?thesis unfolding ok(2) by (simp del: append.simps)
qed

lemma run_end:
  assumes "trace s1 = [Connect, Cursor] @ evs" "Rollback \<notin> set evs" "CursorClose \<notin> set evs"
    "ConnClose \<notin> set evs"
  shows "(\<exists>mid. trace (snd (case res of
            Returned \<Rightarrow> (Returned, conn_close (cursor_close s1))
          | Raised e \<Rightarrow>
              (case rollback F s1 of
                 (Raised e', s2) \<Rightarrow> (Raised e', conn_close (cursor_close s2))
               | (Returned, s2) \<Rightarrow> (Raised e, conn_close (cursor_close s2))))) =
            [Connect, Cursor] @ mid @ [CursorClose, ConnClose] \<and>
            CursorClose \<notin> set mid \<and> ConnClose \<notin> set mid) \<and>
         \<not> cur_open (snd (case res of
            Returned \<Rightarrow> (Returned, conn_close (cursor_close s1))
          | Raised e \<Rightarrow>
              (case rollback F s1 of
                 (Raised e', s2) \<Rightarrow> (Raised e', conn_close (cursor_close s2))
               | (Returned, s2) \<Rightarrow> (Raised e, conn_close (cursor_close s2))))) \<and>
         \<not> conn_open (snd (case res of
            Returned \<Rightarrow> (Returned, conn_close (cursor_close s1))
          | Raised e \<Rightarrow>
              (case rollback F s1 of
                 (Raised e', s2) \<Rightarrow> (Raised e', conn_close (cursor_close s2))
               | (Returned, s2) \<Rightarrow> (Raised e, conn_close (cursor_close s2)))))"
proof (cases res)
  case Returned
  have "trace (conn_close (cursor_close s1)) = [Connect, Cursor] @ evs @ [CursorClose, ConnClose] \<and>
      CursorClose \<notin> set evs \<and> ConnClose \<notin> set evs"
    using assms by (simp add: closed_fields)
  then have "\<exists>mid. trace (conn_close (cursor_close s1)) =
      [Connect, Cursor] @ mid @ [CursorClose, ConnClose] \<and>
      CursorClose \<notin> set mid \<and> ConnClose \<notin> set mid" by (rule exI)
  with Returned show ?thesis by (simp add: closed_fields(1,2))
next
  case (Raised e)
  have "\<not> cur_open (snd (case rollback F s1 of
             (Raised e', s2) \<Rightarrow> (Raised e', conn_close (cursor_close s2))
           | (Returned, s2) \<Rightarrow> (Raised e, conn_close (cursor_close s2))))"
    "\<not> conn_open (snd (case rollback F s1 of
             (Raised e', s2) \<Rightarrow> (Raised e', conn_close (cursor_close s2))
           | (Returned, s2) \<Rightarrow> (Raised e, conn_close (cursor_close s2))))"
    by (cases rule: rollback_cases [of s1 F]; simp add: closed_fields(1,2))+
  with handler_trace [OF assms, where F = F and e = e] Raised show ?thesis by simp
qed

section \<open>Claims\<close>

text \<open>
  C1. In a run of the loader that returns, for every data row that is not blank (the rows
  after the header, counted from zero) the loader executes the conflict-ignoring insert of
  \<open>(trimmed first field, "post", index)\<close>; these are all the statements it executes, in
  row order. After the run the table has a row with that \<open>feed_id\<close>, and it is exactly this
  tuple when the \<open>feed_id\<close> was neither in the table before nor in an earlier row. Loading
  a header and the rows \<open>["f1"], ["f2"], ["f3"]\<close> into an empty table gives exactly
  \<open>(f1, "post", 0), (f2, "post", 1), (f3, "post", 2)\<close>.
\<close>

theorem load_coldstart_inserts_rows:
  assumes "load_coldstart F env (Row header # map Row rows) t = (Returned, s)"
  shows "executed (trace s) = attempts 0 rows \<and>
    (\<forall>i<length rows. \<not> blank (rows ! i) \<longrightarrow>
       Execute (InsertIgnore (strip (rows ! i ! 0)) (str ''post'') i) \<in> set (trace s) \<and>
       strip (rows ! i ! 0) \<in> fst ` set (committed s) \<and>
       (strip (rows ! i ! 0) \<notin> fst ` set t \<and>
        (\<forall>j<i. \<not> blank (rows ! j) \<longrightarrow> strip (rows ! j ! 0) \<noteq> strip (rows ! i ! 0)) \<longrightarrow>
          (strip (rows ! i ! 0), str ''post'', i) \<in> set (committed s))) \<and>
    load_coldstart no_faults env' [Row header', Row [str ''f1''], Row [str ''f2''], Row [str ''f3'']] [] =
      (Returned,
       \<lparr> committed = [(str ''f1'', str ''post'', 0), (str ''f2'', str ''post'', 1),
                      (str ''f3'', str ''post'', 2)],
         working = [(str ''f1'', str ''post'', 0), (str ''f2'', str ''post'', 1),
                    (str ''f3'', str ''post'', 2)],
         conn_open = False, cur_open = False, pending = False, rowcount = 1,
         trace = [Connect, Cursor, OpenFile,
                  Execute (InsertIgnore (str ''f1'') (str ''post'') 0),
                  Execute (InsertIgnore (str ''f2'') (str ''post'') 1),
                  Execute (InsertIgnore (str ''f3'') (str ''post'') 2),
                  CloseFile, Commit, CursorClose, ConnClose],
         stdout = [Loaded 3] \<rparr>)"
proof (intro conjI allI impI)
  show "executed (trace s) = attempts 0 rows" by (rule load_coldstart_rows(4) [OF assms])
next
  fix i assume i: "i < length rows" "\<not> blank (rows ! i)"
  then have "InsertIgnore (strip (rows ! i ! 0)) (str ''post'') (0 + i) \<in> set (attempts 0 rows)"
    unfolding set_attempts by blast
  then show "Execute (InsertIgnore (strip (rows ! i ! 0)) (str ''post'') i) \<in> set (trace s)"
    by (simp add: Execute_in_trace [OF assms])
  from i have "strip (rows ! i ! 0) \<in> {strip (r ! 0) | r. r \<in> set rows \<and> \<not> blank r}"
    using nth_mem by blast
  then show "strip (rows ! i ! 0) \<in> fst ` set (committed s)"
    unfolding load_coldstart_rows(2) [OF assms] apply_all_attempts_ids by simp
next
  fix i
  assume i: "i < length rows" "\<not> blank (rows ! i)" and
    fresh: "strip (rows ! i ! 0) \<notin> fst ` set t \<and>
      (\<forall>j<i. \<not> blank (rows ! j) \<longrightarrow> strip (rows ! j ! 0) \<noteq> strip (rows ! i ! 0))"
  from apply_all_attempts_fresh [OF i, of t 0] fresh
  show "(strip (rows ! i ! 0), str ''post'', i) \<in> set (committed s)"
    by (simp add: load_coldstart_rows(2) [OF assms])
next
  show "load_coldstart no_faults env' [Row header', Row [str ''f1''], Row [str ''f2''], Row [str ''f3'']] [] =
      (Returned,
       \<lparr> committed = [(str ''f1'', str ''post'', 0), (str ''f2'', str ''post'', 1),
                      (str ''f3'', str ''post'', 2)],
         working = [(str ''f1'', str ''post'', 0), (str ''f2'', str ''post'', 1),
                    (str ''f3'', str ''post'', 2)],
         conn_open = False, cur_open = False, pending = False, rowcount = 1,
         trace = [Connect, Cursor, OpenFile,
                  Execute (InsertIgnore (str ''f1'') (str ''post'') 0),
                  Execute (InsertIgnore (str ''f2'') (str ''post'') 1),
                  Execute (InsertIgnore (str ''f3'') (str ''post'') 2),
                  CloseFile, Commit, CursorClose, ConnClose],
         stdout = [Loaded 3] \<rparr>)"
    by (simp add: run_defs str_defs)
qed

theorem load_coldstart_inserts_rows_witness:
  "load_coldstart no_faults Map.empty
     [Row [str ''feed_id''], Row [str '' f1 ''], Row [str ''f2'', str ''x'']]
     [(str ''f2'', str ''post'', 9)] =
     (Returned, snd (load_coldstart no_faults Map.empty
        [Row [str ''feed_id''], Row [str '' f1 ''], Row [str ''f2'', str ''x'']]
        [(str ''f2'', str ''post'', 9)])) \<and>
   \<not> blank ([ [str '' f1 ''], [str ''f2'', str ''x'']] ! 0) \<and>
   str ''f1'' \<notin> fst ` set [(str ''f2'', str ''post'', 9::nat)] \<and>
   Execute (InsertIgnore (str ''f1'') (str ''post'') 0) \<in>
     set (trace (snd (load_coldstart no_faults Map.empty
        [Row [str ''feed_id''], Row [str '' f1 ''], Row [str ''f2'', str ''x'']]
        [(str ''f2'', str ''post'', 9)]))) \<and>
   (str ''f1'', str ''post'', 0) \<in>
     set (committed (snd (load_coldstart no_faults Map.empty
        [Row [str ''feed_id''], Row [str '' f1 ''], Row [str ''f2'', str ''x'']]
        [(str ''f2'', str ''post'', 9)])))"
proof -
  let ?rows = "[ [str '' f1 ''], [str ''f2'', str ''x'']]"
  let ?t = "[(str ''f2'', str ''post'', 9)]"
  let ?run = "load_coldstart no_faults Map.empty (Row [str ''feed_id''] # map Row ?rows) ?t"
  have ev: "?run = (Returned, snd ?run)"
    by (simp add: run_defs str_defs)
  have nb: "\<not> blank (?rows ! 0)" by (simp add: blank_def str_defs)
  have st: "strip (?rows ! 0 ! 0) = str ''f1''" by (simp add: str_defs)
  have new: "str ''f1'' \<notin> fst ` set ?t" by (simp add: str_def)
  note T = load_coldstart_inserts_rows [OF ev, THEN conjunct2, THEN conjunct1, rule_format, of 0]
  have "Execute (InsertIgnore (str ''f1'') (str ''post'') 0) \<in> set (trace (snd ?run)) \<and>
     (str ''f1'', str ''post'', 0) \<in> set (committed (snd ?run))"
    using T nb new unfolding st by simp
  with ev nb new show ?thesis by simp
qed

text \<open>
  C2. In a run of the loader that returns, a data row that is blank (empty, or with a
  first field that is empty or only whitespace) is skipped: no statement is executed with
  its index, the table gets no row with its index, and it is not counted. Its index is
  consumed all the same: every row that is not blank is inserted with its own index, and
  the count printed is the number of rows that are not blank. For a header and the rows
  \<open>A\<close>, empty, two blanks, \<open>B\<close> the loader inserts \<open>(A, "post", 0)\<close> and
  \<open>(B, "post", 3)\<close> and prints a count of 2.
\<close>

theorem load_coldstart_skips_blank_rows:
  assumes "load_coldstart F env (Row header # map Row rows) t = (Returned, s)"
  shows "(\<forall>i<length rows. blank (rows ! i) \<longrightarrow>
       (\<forall>fid ty. Execute (InsertIgnore fid ty i) \<notin> set (trace s) \<and>
          ((fid, ty, i) \<in> set (committed s) \<longrightarrow> (fid, ty, i) \<in> set t))) \<and>
    stdout s = [Loaded (length (filter (\<lambda>row. \<not> blank row) rows))] \<and>
    (\<forall>i<length rows. \<not> blank (rows ! i) \<longrightarrow>
       Execute (InsertIgnore (strip (rows ! i ! 0)) (str ''post'') i) \<in> set (trace s)) \<and>
    load_coldstart no_faults env' [Row header', Row [str ''A''], Row [], Row [str ''  ''], Row [str ''B'']] [] =
      (Returned,
       \<lparr> committed = [(str ''A'', str ''post'', 0), (str ''B'', str ''post'', 3)],
         working = [(str ''A'', str ''post'', 0), (str ''B'', str ''post'', 3)],
         conn_open = False, cur_open = False, pending = False, rowcount = 1,
         trace = [Connect, Cursor, OpenFile,
                  Execute (InsertIgnore (str ''A'') (str ''post'') 0),
                  Execute (InsertIgnore (str ''B'') (str ''post'') 3),
                  CloseFile, Commit, CursorClose, ConnClose],
         stdout = [Loaded 2] \<rparr>)"
proof -
  have skipped: "\<And>i fid ty. i < length rows \<Longrightarrow> blank (rows ! i) \<Longrightarrow>
      InsertIgnore fid ty i \<notin> set (attempts 0 rows)"
    unfolding set_attempts by auto
  have a: "\<forall>i<length rows. blank (rows ! i) \<longrightarrow>
       (\<forall>fid ty. Execute (InsertIgnore fid ty i) \<notin> set (trace s) \<and>
          ((fid, ty, i) \<in> set (committed s) \<longrightarrow> (fid, ty, i) \<in> set t))"
  proof (intro allI impI conjI)
    fix i fid ty assume i: "i < length rows" "blank (rows ! i)"
    from skipped [OF i] show "Execute (InsertIgnore fid ty i) \<notin> set (trace s)"
      by (simp add: Execute_in_trace [OF assms])
    assume mem: "(fid, ty, i) \<in> set (committed s)"
    from apply_all_attempts_added [of 0 rows t] obtain added where
      ad: "apply_all (attempts 0 rows) t = t @ added"
        "\<forall>e\<in>set added. fst e \<notin> fst ` set t \<and>
           InsertIgnore (fst e) (fst (snd e)) (snd (snd e)) \<in> set (attempts 0 rows)"
      by blast
    show "(fid, ty, i) \<in> set t"
    proof (rule ccontr)
      assume "(fid, ty, i) \<notin> set t"
      with mem ad(1) have "(fid, ty, i) \<in> set added"
        by (simp add: load_coldstart_rows(2) [OF assms])
      with ad(2) have "InsertIgnore fid ty i \<in> set (attempts 0 rows)" by fastforce
      with skipped [OF i] show False by blast
    qed
  qed
  have b: "stdout s = [Loaded (length (filter (\<lambda>row. \<not> blank row) rows))]"
    by (simp add: load_coldstart_rows(3) [OF assms] length_attempts)
  have c: "\<forall>i<length rows. \<not> blank (rows ! i) \<longrightarrow>
       Execute (InsertIgnore (strip (rows ! i ! 0)) (str ''post'') i) \<in> set (trace s)"
  proof (intro allI impI)
    fix i assume "i < length rows" "\<not> blank (rows ! i)"
    then have "InsertIgnore (strip (rows ! i ! 0)) (str ''post'') (0 + i) \<in> set (attempts 0 rows)"
      unfolding set_attempts by blast
    then show "Execute (InsertIgnore (strip (rows ! i ! 0)) (str ''post'') i) \<in> set (trace s)"
      by (simp add: Execute_in_trace [OF assms])
  qed
  have d: "load_coldstart no_faults env' [Row header', Row [str ''A''], Row [], Row [str ''  ''], Row [str ''B'']] [] =
      (Returned,
       \<lparr> committed = [(str ''A'', str ''post'', 0), (str ''B'', str ''post'', 3)],
         working = [(str ''A'', str ''post'', 0), (str ''B'', str ''post'', 3)],
         conn_open = False, cur_open = False, pending = False, rowcount = 1,
         trace = [Connect, Cursor, OpenFile,
                  Execute (InsertIgnore (str ''A'') (str ''post'') 0),
                  Execute (InsertIgnore (str ''B'') (str ''post'') 3),
                  CloseFile, Commit, CursorClose, ConnClose],
         stdout = [Loaded 2] \<rparr>)"
    by (simp add: run_defs str_defs)
  from a b c d show ?thesis by (intro conjI)
qed

theorem load_coldstart_skips_blank_rows_witness:
  "load_coldstart no_faults Map.empty
     [Row [str ''feed_id'', str ''feed_type''], Row [str ''A''], Row [], Row [str ''  ''],
      Row [str ''B'']] [(str ''C'', str ''post'', 1)] =
     (Returned, snd (load_coldstart no_faults Map.empty
        [Row [str ''feed_id'', str ''feed_type''], Row [str ''A''], Row [], Row [str ''  ''],
         Row [str ''B'']] [(str ''C'', str ''post'', 1)])) \<and>
   blank ([ [str ''A''], [], [str ''  ''], [str ''B'']] ! 1) \<and>
   blank ([ [str ''A''], [], [str ''  ''], [str ''B'']] ! 2) \<and>
   \<not> blank ([ [str ''A''], [], [str ''  ''], [str ''B'']] ! 3) \<and>
   Execute (InsertIgnore (str ''X'') (str ''post'') 1) \<notin>
     set (trace (snd (load_coldstart no_faults Map.empty
        [Row [str ''feed_id'', str ''feed_type''], Row [str ''A''], Row [], Row [str ''  ''],
         Row [str ''B'']] [(str ''C'', str ''post'', 1)]))) \<and>
   Execute (InsertIgnore [] (str ''post'') 2) \<notin>
     set (trace (snd (load_coldstart no_faults Map.empty
        [Row [str ''feed_id'', str ''feed_type''], Row [str ''A''], Row [], Row [str ''  ''],
         Row [str ''B'']] [(str ''C'', str ''post'', 1)]))) \<and>
   Execute (InsertIgnore (str ''B'') (str ''post'') 3) \<in>
     set (trace (snd (load_coldstart no_faults Map.empty
        [Row [str ''feed_id'', str ''feed_type''], Row [str ''A''], Row [], Row [str ''  ''],
         Row [str ''B'']] [(str ''C'', str ''post'', 1)]))) \<and>
   stdout (snd (load_coldstart no_faults Map.empty
        [Row [str ''feed_id'', str ''feed_type''], Row [str ''A''], Row [], Row [str ''  ''],
         Row [str ''B'']] [(str ''C'', str ''post'', 1)])) = [Loaded 2]"
proof -
  let ?rows = "[ [str ''A''], [], [str ''  ''], [str ''B'']]"
  let ?t = "[(str ''C'', str ''post'', 1)]"
  let ?run = "load_coldstart no_faults Map.empty
     (Row [str ''feed_id'', str ''feed_type''] # map Row ?rows) ?t"
  have ev: "?run = (Returned, snd ?run)"
    by (simp add: run_defs str_defs)
  have b1: "blank (?rows ! 1)" and b2: "blank (?rows ! 2)" and b3: "\<not> blank (?rows ! 3)"
    by (simp_all add: blank_def str_defs)
  have st: "strip (?rows ! 3 ! 0) = str ''B''" by (simp add: str_defs)
  have n: "length (filter (\<lambda>row. \<not> blank row) ?rows) = 2" by (simp add: blank_def str_defs)
  note T = load_coldstart_skips_blank_rows [OF ev]
  from T b1 have "Execute (InsertIgnore (str ''X'') (str ''post'') 1) \<notin> set (trace (snd ?run))"
    by simp
  moreover from T b2 have "Execute (InsertIgnore [] (str ''post'') 2) \<notin> set (trace (snd ?run))"
    by simp
  moreover from T [THEN conjunct2, THEN conjunct2, THEN conjunct1, rule_format, of 3] b3
  have "Execute (InsertIgnore (str ''B'') (str ''post'') 3) \<in> set (trace (snd ?run))"
    unfolding st by simp
  moreover from T [THEN conjunct2, THEN conjunct1] have "stdout (snd ?run) = [Loaded 2]"
    unfolding n .
  ultimately show ?thesis using ev b1 b2 b3 by simp
qed

text \<open>
  C3. An insert whose \<open>feed_id\<close> is already in the table returns without an error and
  leaves the table as it is. In a run of the loader that returns, such a row is still
  executed and counted: the count printed is the number of inserts executed (the number
  of rows that are not blank), the rows the table held before are all still there, in
  place, and the rows added are at most as many as the count, none of them for a
  \<open>feed_id\<close> the table had before.
\<close>

theorem load_coldstart_counts_attempts:
  assumes "load_coldstart F env (Row header # map Row rows) t = (Returned, s)"
  shows "stdout s = [Loaded (length (executed (trace s)))] \<and>
    length (executed (trace s)) = length (filter (\<lambda>row. \<not> blank row) rows) \<and>
    (\<exists>added. committed s = t @ added \<and> length added \<le> length (executed (trace s)) \<and>
       fst ` set added \<inter> fst ` set t = {}) \<and>
    (\<forall>i<length rows. \<not> blank (rows ! i) \<and> strip (rows ! i ! 0) \<in> fst ` set t \<longrightarrow>
       Execute (InsertIgnore (strip (rows ! i ! 0)) (str ''post'') i) \<in> set (trace s) \<and>
       (\<forall>ty p. (strip (rows ! i ! 0), ty, p) \<in> set (committed s) \<longrightarrow>
          (strip (rows ! i ! 0), ty, p) \<in> set t)) \<and>
    (execute_fault F' k = None \<and> fid \<in> fst ` set (working s0) \<longrightarrow>
       fst (execute F' k (InsertIgnore fid ty' p') s0) = Returned \<and>
       working (snd (execute F' k (InsertIgnore fid ty' p') s0)) = working s0 \<and>
       committed (snd (execute F' k (InsertIgnore fid ty' p') s0)) = committed s0)"
proof -
  note ex = load_coldstart_rows(4) [OF assms]
  from apply_all_attempts_added [of 0 rows t] obtain added where
    ad: "apply_all (attempts 0 rows) t = t @ added"
      "length added \<le> length (attempts 0 rows)"
      "\<forall>e\<in>set added. fst e \<notin> fst ` set t \<and>
         InsertIgnore (fst e) (fst (snd e)) (snd (snd e)) \<in> set (attempts 0 rows)"
    by blast
  have a: "stdout s = [Loaded (length (executed (trace s)))]"
    by (simp add: ex load_coldstart_rows(3) [OF assms])
  have b: "length (executed (trace s)) = length (filter (\<lambda>row. \<not> blank row) rows)"
    by (simp add: ex length_attempts)
  have "committed s = t @ added \<and> length added \<le> length (executed (trace s)) \<and>
       fst ` set added \<inter> fst ` set t = {}"
    using ad by (auto simp: ex load_coldstart_rows(2) [OF assms])
  then have c: "\<exists>added. committed s = t @ added \<and> length added \<le> length (executed (trace s)) \<and>
       fst ` set added \<inter> fst ` set t = {}" ..
  have d: "\<forall>i<length rows. \<not> blank (rows ! i) \<and> strip (rows ! i ! 0) \<in> fst ` set t \<longrightarrow>
       Execute (InsertIgnore (strip (rows ! i ! 0)) (str ''post'') i) \<in> set (trace s) \<and>
       (\<forall>ty p. (strip (rows ! i ! 0), ty, p) \<in> set (committed s) \<longrightarrow>
          (strip (rows ! i ! 0), ty, p) \<in> set t)"
  proof (intro allI impI conjI)
    fix i assume i: "i < length rows" and
      h: "\<not> blank (rows ! i) \<and> strip (rows ! i ! 0) \<in> fst ` set t"
    from i h have "InsertIgnore (strip (rows ! i ! 0)) (str ''post'') (0 + i) \<in> set (attempts 0 rows)"
      unfolding set_attempts by blast
    then show "Execute (InsertIgnore (strip (rows ! i ! 0)) (str ''post'') i) \<in> set (trace s)"
      by (simp add: Execute_in_trace [OF assms])
    fix ty p assume "(strip (rows ! i ! 0), ty, p) \<in> set (committed s)"
    then have "(strip (rows ! i ! 0), ty, p) \<in> set t \<or> (strip (rows ! i ! 0), ty, p) \<in> set added"
      by (auto simp: load_coldstart_rows(2) [OF assms] ad(1))
    moreover have "(strip (rows ! i ! 0), ty, p) \<notin> set added"
    proof
      assume "(strip (rows ! i ! 0), ty, p) \<in> set added"
      with ad(3) have "fst (strip (rows ! i ! 0), ty, p) \<notin> fst ` set t" by blast
      with h show False by simp
    qed
    ultimately show "(strip (rows ! i ! 0), ty, p) \<in> set t" by blast
  qed
  have e: "execute_fault F' k = None \<and> fid \<in> fst ` set (working s0) \<longrightarrow>
       fst (execute F' k (InsertIgnore fid ty' p') s0) = Returned \<and>
       working (snd (execute F' k (InsertIgnore fid ty' p') s0)) = working s0 \<and>
       committed (snd (execute F' k (InsertIgnore fid ty' p') s0)) = committed s0"
    by (simp add: execute_def insert_ignore_def)
  from a b c d e show ?thesis by (intro conjI)
qed

theorem load_coldstart_counts_attempts_witness:
  "load_coldstart no_faults Map.empty [Row [str ''feed_id''], Row [str ''A ''], Row [str ''B'']]
     [(str ''A'', str ''post'', 5)] =
     (Returned,
      \<lparr> committed = [(str ''A'', str ''post'', 5), (str ''B'', str ''post'', 1)],
        working = [(str ''A'', str ''post'', 5), (str ''B'', str ''post'', 1)],
        conn_open = False, cur_open = False, pending = False, rowcount = 1,
        trace = [Connect, Cursor, OpenFile,
                 Execute (InsertIgnore (str ''A'') (str ''post'') 0),
                 Execute (InsertIgnore (str ''B'') (str ''post'') 1),
                 CloseFile, Commit, CursorClose, ConnClose],
        stdout = [Loaded 2] \<rparr>) \<and>
   \<not> blank ([ [str ''A ''], [str ''B'']] ! 0) \<and>
   strip ([ [str ''A ''], [str ''B'']] ! 0 ! 0) \<in> fst ` set [(str ''A'', str ''post'', 5::nat)] \<and>
   (str ''A'', str ''post'', 0) \<notin>
     set (committed (snd (load_coldstart no_faults Map.empty
       [Row [str ''feed_id''], Row [str ''A ''], Row [str ''B'']] [(str ''A'', str ''post'', 5)]))) \<and>
   stdout (snd (load_coldstart no_faults Map.empty
       [Row [str ''feed_id''], Row [str ''A ''], Row [str ''B'']] [(str ''A'', str ''post'', 5)])) =
     [Loaded (length (executed (trace (snd (load_coldstart no_faults Map.empty
       [Row [str ''feed_id''], Row [str ''A ''], Row [str ''B'']] [(str ''A'', str ''post'', 5)])))))]"
proof -
  let ?rows = "[ [str ''A ''], [str ''B'']]"
  let ?t = "[(str ''A'', str ''post'', 5::nat)]"
  let ?csv = "[Row [str ''feed_id''], Row [str ''A ''], Row [str ''B'']]"
  let ?s = "\<lparr> committed = [(str ''A'', str ''post'', 5), (str ''B'', str ''post'', 1)],
        working = [(str ''A'', str ''post'', 5), (str ''B'', str ''post'', 1)],
        conn_open = False, cur_open = False, pending = False, rowcount = 1,
        trace = [Connect, Cursor, OpenFile,
                 Execute (InsertIgnore (str ''A'') (str ''post'') 0),
                 Execute (InsertIgnore (str ''B'') (str ''post'') 1),
                 CloseFile, Commit, CursorClose, ConnClose],
        stdout = [Loaded 2] \<rparr>"
  have ev: "load_coldstart no_faults Map.empty ?csv ?t = (Returned, ?s)"
    by (simp add: run_defs str_defs)
  then have ev': "load_coldstart no_faults Map.empty (Row [str ''feed_id''] # map Row ?rows) ?t =
      (Returned, ?s)"
    by simp
  have nb: "\<not> blank (?rows ! 0)" by (simp add: blank_def str_defs)
  have st: "strip (?rows ! 0 ! 0) = str ''A''" by (simp add: str_defs)
  have old: "strip (?rows ! 0 ! 0) \<in> fst ` set ?t" unfolding st by simp
  have notin: "(str ''A'', str ''post'', 0) \<notin> set ?t" by simp
  note T = load_coldstart_counts_attempts [OF ev']
  from T have out: "stdout ?s = [Loaded (length (executed (trace ?s)))]" by (rule conjunct1)
  from T [THEN conjunct2, THEN conjunct2, THEN conjunct2, THEN conjunct1, rule_format, of 0]
    nb old
  have "\<forall>ty p. (strip (?rows ! 0 ! 0), ty, p) \<in> set (committed ?s) \<longrightarrow>
      (strip (?rows ! 0 ! 0), ty, p) \<in> set ?t"
    by simp
  then have "(str ''A'', str ''post'', 0) \<in> set (committed ?s) \<longrightarrow>
      (str ''A'', str ''post'', 0) \<in> set ?t"
    unfolding st by blast
  with notin have "(str ''A'', str ''post'', 0) \<notin> set (committed ?s)" by blast
  with out nb old show ?thesis by (simp add: ev)
qed

text \<open>
  C4, as the code has it. The claim that every failure is rolled back and raised again
  unchanged fails twice. When a statement raises and the rollback in the handler raises
  too, no rollback completes and the error of the rollback leaves \<open>load_coldstart\<close> in
  place of the first one. And \<open>print\<close> is inside the \<open>try\<close> block, after the commit: when
  it raises, the run raises with all its inserts committed.
\<close>

theorem load_coldstart_error_replaced_or_committed:
  "load_coldstart
     (no_faults\<lparr>execute_fault := (\<lambda>k. Some (DatabaseError ''server closed the connection'')),
        rollback_fault := Some (InterfaceError ''connection already closed'')\<rparr>)
     Map.empty [Row [str ''feed_id''], Row [str ''A'']] [] =
     (Raised (InterfaceError ''connection already closed''),
      \<lparr> committed = [], working = [], conn_open = False, cur_open = False, pending = False,
        rowcount = - 1,
        trace = [Connect, Cursor, OpenFile, CloseFile, CursorClose, ConnClose],
        stdout = [] \<rparr>) \<and>
   load_coldstart (no_faults\<lparr>print_fault := Some (OSError ''Broken pipe'')\<rparr>)
     Map.empty [Row [str ''feed_id''], Row [str ''A'']] [] =
     (Raised (OSError ''Broken pipe''),
      \<lparr> committed = [(str ''A'', str ''post'', 0)], working = [(str ''A'', str ''post'', 0)],
        conn_open = False, cur_open = False, pending = False, rowcount = 1,
        trace = [Connect, Cursor, OpenFile, Execute (InsertIgnore (str ''A'') (str ''post'') 0),
                 CloseFile, Commit, Rollback, CursorClose, ConnClose],
        stdout = [] \<rparr>)"
  by (simp add: run_defs str_defs)

text \<open>
  C4, amended. With the connection and the cursor acquired, the outcome of a run is that
  of the calls of the \<open>try\<close> block in order: the run returns when none of them raises,
  and otherwise the handler calls \<open>rollback\<close> and raises the error of the first call
  that raised, unchanged, unless statements are pending and the rollback raises itself,
  and then the error of the rollback goes on and no rollback completes. The commit
  happens at most once, after every statement, and exactly when every call before
  \<open>print\<close> has returned; the rollback completes at most once. The table ends as it was
  when the commit did not happen, and otherwise as the old table with all the inserts of
  the file applied (also when \<open>print\<close> raised after the commit): never in between.
\<close>

theorem load_coldstart_commit_or_rollback:
  assumes "connect_fault F (DB_CONFIG env) = None" "cursor_fault F = None"
    and "load_coldstart F env csv t = (r, s)"
  shows "r = (case first_error (try_calls F csv) of
                None \<Rightarrow> Returned
              | Some e \<Rightarrow>
                  (if rollback_pending F csv
                   then (case rollback_fault F of None \<Rightarrow> Raised e | Some e' \<Rightarrow> Raised e')
                   else Raised e)) \<and>
    (Rollback \<in> set (trace s)) =
      (first_error (try_calls F csv) \<noteq> None \<and>
       (rollback_pending F csv \<longrightarrow> rollback_fault F = None)) \<and>
    (Commit \<in> set (trace s)) = (PrintCall \<in> set (attempted (try_calls F csv))) \<and>
    count_list (trace s) Commit \<le> 1 \<and> count_list (trace s) Rollback \<le> 1 \<and>
    executed (takeWhile (\<lambda>ev. ev \<noteq> Commit) (trace s)) = executed (trace s) \<and>
    committed s = (if Commit \<in> set (trace s) then apply_all (executed (trace s)) t else t) \<and>
    (Commit \<in> set (trace s) \<longrightarrow>
       (\<exists>header rows. csv = Row header # map Row rows \<and> executed (trace s) = attempts 0 rows))"
  using assms
proof (cases rule: load_run_cases)
  case (returned header rows)
  let ?pre = "[Connect, Cursor, OpenFile] @ map Execute (attempts 0 rows) @ [CloseFile]"
  have pre: "Commit \<notin> set ?pre" "Rollback \<notin> set ?pre" by auto
  have ex: "executed (trace s) = attempts 0 rows"
    by (simp add: returned(3) executed_append executed_map_Execute)
  have tw: "takeWhile (\<lambda>ev. ev \<noteq> Commit) (trace s) = ?pre"
    unfolding returned(3) by (rule takeWhile_until [OF pre(1)])
  have cnt: "count_list (trace s) Commit = 1" "count_list (trace s) Rollback = 0"
    unfolding returned(3) using pre by (simp_all add: count_list_notin)
  have mem: "Commit \<in> set (trace s)" "Rollback \<notin> set (trace s)"
    unfolding returned(3) using pre by simp_all
  have shape: "\<exists>header rows. csv = Row header # map Row rows \<and> executed (trace s) = attempts 0 rows"
    using returned(2) ex by blast
  show ?thesis
    using returned(1,4,5,6) mem cnt shape
    by (simp add: tw ex executed_append executed_map_Execute)
next
  case (print_failed e header rows)
  let ?pre = "[Connect, Cursor, OpenFile] @ map Execute (attempts 0 rows) @ [CloseFile]"
  have pre: "Commit \<notin> set ?pre" "Rollback \<notin> set ?pre" by auto
  have ex: "executed (trace s) = attempts 0 rows"
    by (simp add: print_failed(3) executed_append executed_map_Execute)
  have tw: "takeWhile (\<lambda>ev. ev \<noteq> Commit) (trace s) = ?pre"
    unfolding print_failed(3) by (rule takeWhile_until [OF pre(1)])
  have cnt: "count_list (trace s) Commit = 1" "count_list (trace s) Rollback = 1"
    unfolding print_failed(3) using pre by (simp_all add: count_list_notin)
  have mem: "Commit \<in> set (trace s)" "Rollback \<in> set (trace s)"
    unfolding print_failed(3) by simp_all
  have np: "\<not> rollback_pending F csv"
    using print_failed(6) by (simp add: rollback_pending_def)
  have shape: "\<exists>header rows. csv = Row header # map Row rows \<and> executed (trace s) = attempts 0 rows"
    using print_failed(2) ex by blast
  show ?thesis
    using print_failed(1,4,5,6) mem cnt shape np
    by (simp add: tw ex executed_append executed_map_Execute)
next
  case (rolled_back e base)
  have mem: "Commit \<notin> set (trace s)" "Rollback \<in> set (trace s)"
    unfolding rolled_back(2) using rolled_back(3) by simp_all
  have cnt: "count_list (trace s) Commit = 0" "count_list (trace s) Rollback = 1"
    unfolding rolled_back(2) using rolled_back(3,4) by (simp_all add: count_list_notin)
  have tw: "takeWhile (\<lambda>ev. ev \<noteq> Commit) (trace s) = trace s"
    using mem(1) by (auto simp: takeWhile_eq_all_conv)
  show ?thesis
    using rolled_back(1,5,6,7,8) mem cnt
    by (simp add: tw split: option.splits)
next
  case (rollback_failed e e0 base)
  have mem: "Commit \<notin> set (trace s)" "Rollback \<notin> set (trace s)"
    unfolding rollback_failed(2) using rollback_failed(3,4) by simp_all
  have cnt: "count_list (trace s) Commit = 0" "count_list (trace s) Rollback = 0"
    using mem by (simp_all add: count_list_notin)
  have tw: "takeWhile (\<lambda>ev. ev \<noteq> Commit) (trace s) = trace s"
    using mem(1) by (auto simp: takeWhile_eq_all_conv)
  show ?thesis
    using rollback_failed(1,5,6,7,8,9) mem cnt
    by (simp add: tw)
qed

theorem load_coldstart_commit_or_rollback_witness:
  "connect_fault
     (no_faults\<lparr>execute_fault :=
        (\<lambda>k. if 0 < k then Some (DatabaseError ''deadlock detected'') else None)\<rparr>)
     (DB_CONFIG Map.empty) = None \<and>
   cursor_fault
     (no_faults\<lparr>execute_fault :=
        (\<lambda>k. if 0 < k then Some (DatabaseError ''deadlock detected'') else None)\<rparr>) = None \<and>
   load_coldstart
     (no_faults\<lparr>execute_fault :=
        (\<lambda>k. if 0 < k then Some (DatabaseError ''deadlock detected'') else None)\<rparr>)
     Map.empty [Row [str ''feed_id''], Row [str ''A''], Row [str ''B'']]
     [(str ''Z'', str ''post'', 0)] =
     (Raised (DatabaseError ''deadlock detected''),
      \<lparr> committed = [(str ''Z'', str ''post'', 0)], working = [(str ''Z'', str ''post'', 0)],
        conn_open = False, cur_open = False, pending = False, rowcount = - 1,
        trace = [Connect, Cursor, OpenFile, Execute (InsertIgnore (str ''A'') (str ''post'') 0),
                 CloseFile, Rollback, CursorClose, ConnClose],
        stdout = [] \<rparr>) \<and>
   first_error (try_calls
     (no_faults\<lparr>execute_fault :=
        (\<lambda>k. if 0 < k then Some (DatabaseError ''deadlock detected'') else None)\<rparr>)
     [Row [str ''feed_id''], Row [str ''A''], Row [str ''B'']]) =
     Some (DatabaseError ''deadlock detected'') \<and>
   rollback_pending
     (no_faults\<lparr>execute_fault :=
        (\<lambda>k. if 0 < k then Some (DatabaseError ''deadlock detected'') else None)\<rparr>)
     [Row [str ''feed_id''], Row [str ''A''], Row [str ''B'']] \<and>
   load_coldstart
     (no_faults\<lparr>execute_fault :=
        (\<lambda>k. if 0 < k then Some (DatabaseError ''deadlock detected'') else None),
        commit_fault := Some (DatabaseError ''never reached''),
        rollback_fault := Some (InterfaceError ''connection already closed'')\<rparr>)
     Map.empty [Row [str ''feed_id''], Row [str ''A''], Row [str ''B'']]
     [(str ''Z'', str ''post'', 0)] =
     (Raised (InterfaceError ''connection already closed''),
      \<lparr> committed = [(str ''Z'', str ''post'', 0)], working = [(str ''Z'', str ''post'', 0)],
        conn_open = False, cur_open = False, pending = False, rowcount = - 1,
        trace = [Connect, Cursor, OpenFile, Execute (InsertIgnore (str ''A'') (str ''post'') 0),
                 CloseFile, CursorClose, ConnClose],
        stdout = [] \<rparr>) \<and>
   load_coldstart no_faults Map.empty [Row [str ''feed_id''], Row [str ''A''], Row [str ''B'']]
     [(str ''Z'', str ''post'', 0)] =
     (Returned,
      \<lparr> committed = [(str ''Z'', str ''post'', 0), (str ''A'', str ''post'', 0),
                     (str ''B'', str ''post'', 1)],
        working = [(str ''Z'', str ''post'', 0), (str ''A'', str ''post'', 0),
                   (str ''B'', str ''post'', 1)],
        conn_open = False, cur_open = False, pending = False, rowcount = 1,
        trace = [Connect, Cursor, OpenFile, Execute (InsertIgnore (str ''A'') (str ''post'') 0),
                 Execute (InsertIgnore (str ''B'') (str ''post'') 1),
                 CloseFile, Commit, CursorClose, ConnClose],
        stdout = [Loaded 2] \<rparr>) \<and>
   committed (snd (load_coldstart
     (no_faults\<lparr>execute_fault :=
        (\<lambda>k. if 0 < k then Some (DatabaseError ''deadlock detected'') else None)\<rparr>)
     Map.empty [Row [str ''feed_id''], Row [str ''A''], Row [str ''B'']]
     [(str ''Z'', str ''post'', 0)])) = [(str ''Z'', str ''post'', 0)] \<and>
   fst (load_coldstart
     (no_faults\<lparr>execute_fault :=
        (\<lambda>k. if 0 < k then Some (DatabaseError ''deadlock detected'') else None),
        commit_fault := Some (DatabaseError ''never reached''),
        rollback_fault := Some (InterfaceError ''connection already closed'')\<rparr>)
     Map.empty [Row [str ''feed_id''], Row [str ''A''], Row [str ''B'']]
     [(str ''Z'', str ''post'', 0)]) = Raised (InterfaceError ''connection already closed'')"
proof -
  let ?F = "no_faults\<lparr>execute_fault :=
        (\<lambda>k. if 0 < k then Some (DatabaseError ''deadlock detected'') else None)\<rparr>"
  let ?G = "no_faults\<lparr>execute_fault :=
        (\<lambda>k. if 0 < k then Some (DatabaseError ''deadlock detected'') else None),
        commit_fault := Some (DatabaseError ''never reached''),
        rollback_fault := Some (InterfaceError ''connection already closed'')\<rparr>"
  let ?csv = "[Row [str ''feed_id''], Row [str ''A''], Row [str ''B'']]"
  let ?t = "[(str ''Z'', str ''post'', 0::nat)]"
  have acqF: "connect_fault ?F (DB_CONFIG Map.empty) = None" "cursor_fault ?F = None"
    and acqG: "connect_fault ?G (DB_CONFIG Map.empty) = None" "cursor_fault ?G = None"
    and acq0: "connect_fault no_faults (DB_CONFIG Map.empty) = None" "cursor_fault no_faults = None"
    by (simp_all add: no_faults_def)
  have callsF: "try_calls ?F ?csv =
      [(OpenCall, None), (ReadCall, None), (ReadCall, None), (ExecuteCall, None),
       (ReadCall, None), (ExecuteCall, Some (DatabaseError ''deadlock detected'')),
       (CommitCall, None), (PrintCall, None)]"
    by (simp add: try_calls_def blank_def str_defs no_faults_def)
  have callsG: "try_calls ?G ?csv =
      [(OpenCall, None), (ReadCall, None), (ReadCall, None), (ExecuteCall, None),
       (ReadCall, None), (ExecuteCall, Some (DatabaseError ''deadlock detected'')),
       (CommitCall, Some (DatabaseError ''never reached'')), (PrintCall, None)]"
    by (simp add: try_calls_def blank_def str_defs no_faults_def)
  have calls0: "try_calls no_faults ?csv =
      [(OpenCall, None), (ReadCall, None), (ReadCall, None), (ExecuteCall, None),
       (ReadCall, None), (ExecuteCall, None), (CommitCall, None), (PrintCall, None)]"
    by (simp add: try_calls_def blank_def str_defs no_faults_def)
  have feF: "first_error (try_calls ?F ?csv) = Some (DatabaseError ''deadlock detected'')"
    and rpF: "rollback_pending ?F ?csv"
    by (simp_all add: callsF rollback_pending_def)
  have feG: "first_error (try_calls ?G ?csv) = Some (DatabaseError ''deadlock detected'')"
    and rpG: "rollback_pending ?G ?csv"
    by (simp_all add: callsG rollback_pending_def)
  have fe0: "first_error (try_calls no_faults ?csv) = None"
    and pc0: "PrintCall \<in> set (attempted (try_calls no_faults ?csv))"
    by (simp_all add: calls0)
  have rfF: "rollback_fault ?F = None"
    and rfG: "rollback_fault ?G = Some (InterfaceError ''connection already closed'')"
    by (simp_all add: no_faults_def)
  obtain rF sF where runF: "load_coldstart ?F Map.empty ?csv ?t = (rF, sF)"
    by (cases "load_coldstart ?F Map.empty ?csv ?t")
  obtain rG sG where runG: "load_coldstart ?G Map.empty ?csv ?t = (rG, sG)"
    by (cases "load_coldstart ?G Map.empty ?csv ?t")
  obtain r0 s0 where run0: "load_coldstart no_faults Map.empty ?csv ?t = (r0, s0)"
    by (cases "load_coldstart no_faults Map.empty ?csv ?t")
  note TF = load_coldstart_commit_or_rollback [OF acqF runF]
  note TG = load_coldstart_commit_or_rollback [OF acqG runG]
  note T0 = load_coldstart_commit_or_rollback [OF acq0 run0]
  from TF have "rF = Raised (DatabaseError ''deadlock detected'')"
    "Rollback \<in> set (trace sF)" "Commit \<notin> set (trace sF)"
    by (simp_all add: feF rpF rfF callsF)
  with TF have "committed sF = ?t" by simp
  then have cF: "committed (snd (load_coldstart ?F Map.empty ?csv ?t)) = ?t"
    by (simp add: runF)
  from TG have "rG = Raised (InterfaceError ''connection already closed'')"
    "Rollback \<notin> set (trace sG)" "Commit \<notin> set (trace sG)"
    by (simp_all add: feG rpG rfG callsG)
  then have rG: "fst (load_coldstart ?G Map.empty ?csv ?t) =
      Raised (InterfaceError ''connection already closed'')"
    by (simp add: runG)
  from T0 have "r0 = Returned" "Commit \<in> set (trace s0)"
    by (simp_all add: fe0 pc0)
  have "load_coldstart ?F Map.empty ?csv ?t =
     (Raised (DatabaseError ''deadlock detected''),
      \<lparr> committed = [(str ''Z'', str ''post'', 0)], working = [(str ''Z'', str ''post'', 0)],
        conn_open = False, cur_open = False, pending = False, rowcount = - 1,
        trace = [Connect, Cursor, OpenFile, Execute (InsertIgnore (str ''A'') (str ''post'') 0),
                 CloseFile, Rollback, CursorClose, ConnClose],
        stdout = [] \<rparr>)"
    by (simp add: run_defs str_defs)
  moreover have "load_coldstart ?G Map.empty ?csv ?t =
     (Raised (InterfaceError ''connection already closed''),
      \<lparr> committed = [(str ''Z'', str ''post'', 0)], working = [(str ''Z'', str ''post'', 0)],
        conn_open = False, cur_open = False, pending = False, rowcount = - 1,
        trace = [Connect, Cursor, OpenFile, Execute (InsertIgnore (str ''A'') (str ''post'') 0),
                 CloseFile, CursorClose, ConnClose],
        stdout = [] \<rparr>)"
    by (simp add: run_defs str_defs)
  moreover have "load_coldstart no_faults Map.empty ?csv ?t =
     (Returned,
      \<lparr> committed = [(str ''Z'', str ''post'', 0), (str ''A'', str ''post'', 0),
                     (str ''B'', str ''post'', 1)],
        working = [(str ''Z'', str ''post'', 0), (str ''A'', str ''post'', 0),
                   (str ''B'', str ''post'', 1)],
        conn_open = False, cur_open = False, pending = False, rowcount = 1,
        trace = [Connect, Cursor, OpenFile, Execute (InsertIgnore (str ''A'') (str ''post'') 0),
                 Execute (InsertIgnore (str ''B'') (str ''post'') 1),
                 CloseFile, Commit, CursorClose, ConnClose],
        stdout = [Loaded 2] \<rparr>)"
    by (simp add: run_defs str_defs)
  ultimately show ?thesis using acqF feF rpF cF rG by (intro conjI)
qed

text \<open>
  C5. When the eraser returns, it has executed the unconditional delete and then
  committed, the table has no rows, and the count it prints is the number of rows the
  table held before the run.
\<close>

theorem delete_coldstart_success:
  assumes "delete_coldstart F env t = (Returned, s)"
  shows "trace s = [Connect, Cursor, Execute DeleteAll, Commit, CursorClose, ConnClose] \<and>
         committed s = [] \<and> stdout s = [Deleted (int (length t))]"
proof -
  have "connect_fault F (DB_CONFIG env) = None \<and> cursor_fault F = None"
  proof (rule ccontr)
    assume "\<not> (connect_fault F (DB_CONFIG env) = None \<and> cursor_fault F = None)"
    then have "connect_fault F (DB_CONFIG env) \<noteq> None \<or> cursor_fault F \<noteq> None" by simp
    from delete_coldstart_not_acquired [OF this, of t] assms show False by auto
  qed
  then have acq: "connect_fault F (DB_CONFIG env) = None" "cursor_fault F = None" by simp_all
  obtain r1 s1 where dt: "delete_try F (acquired t) = (r1, s1)"
    by (cases "delete_try F (acquired t)")
  with assms delete_coldstart_acquired [OF acq, of t] have
    r1: "r1 = Returned" and s: "s = conn_close (cursor_close s1)"
    by (auto split: outcome.splits prod.splits)
  from dt r1 have ok: "execute_fault F 0 = None" "commit_fault F = None" "print_fault F = None"
    by (auto simp: delete_try_def execute_def commit_def print_line_def split: option.splits)
  with dt have "trace s1 = [Connect, Cursor, Execute DeleteAll, Commit]" "committed s1 = []"
    "stdout s1 = [Deleted (int (length t))]"
    by (auto simp: delete_try_def execute_def commit_def print_line_def acquired_def start_def)
  then show ?thesis
    by (simp add: s closed_fields)
qed

theorem delete_coldstart_success_witness:
  "delete_coldstart no_faults Map.empty [(str ''a'', str ''post'', 0), (str ''b'', str ''post'', 1)] =
     (Returned,
      \<lparr> committed = [], working = [], conn_open = False, cur_open = False, pending = False,
        rowcount = 2,
        trace = [Connect, Cursor, Execute DeleteAll, Commit, CursorClose, ConnClose],
        stdout = [Deleted 2] \<rparr>) \<and>
   trace (snd (delete_coldstart no_faults Map.empty
      [(str ''a'', str ''post'', 0), (str ''b'', str ''post'', 1)])) =
     [Connect, Cursor, Execute DeleteAll, Commit, CursorClose, ConnClose] \<and>
   committed (snd (delete_coldstart no_faults Map.empty
      [(str ''a'', str ''post'', 0), (str ''b'', str ''post'', 1)])) = [] \<and>
   stdout (snd (delete_coldstart no_faults Map.empty
      [(str ''a'', str ''post'', 0), (str ''b'', str ''post'', 1)])) = [Deleted 2]"
proof -
  let ?t = "[(str ''a'', str ''post'', 0), (str ''b'', str ''post'', 1)]"
  let ?s = "\<lparr> committed = [], working = [], conn_open = False, cur_open = False, pending = False,
    rowcount = 2,
        trace = [Connect, Cursor, Execute DeleteAll, Commit, CursorClose, ConnClose],
        stdout = [Deleted 2] \<rparr>"
  have run: "delete_coldstart no_faults Map.empty ?t = (Returned, ?s)"
    by (simp add: run_defs)
  from delete_coldstart_success [OF run] run show ?thesis by simp
qed

text \<open>
  C6. When the same file is loaded twice in succession, the second run leaves the table
  exactly as the first run left it (the same rows, the same number of rows): it executes
  the same inserts, and each of them is for a \<open>feed_id\<close> the table already has.
\<close>

theorem load_coldstart_twice:
  assumes first: "load_coldstart F1 env1 csv t = (Returned, s1)"
    and second: "load_coldstart F2 env2 csv (committed s1) = (Returned, s2)"
  shows "committed s2 = committed s1 \<and> set (committed s2) = set (committed s1) \<and>
    length (committed s2) = length (committed s1) \<and>
    executed (trace s2) = executed (trace s1) \<and>
    list_all (\<lambda>st. case st of InsertIgnore fid ty p \<Rightarrow> fid \<in> fst ` set (committed s1)
                      | DeleteAll \<Rightarrow> False) (executed (trace s2))"
proof -
  from load_coldstart_Returned [OF first] obtain header rows where
    csv: "csv = Row header # map Row rows" by blast
  note r1 = load_coldstart_rows [OF first [unfolded csv]]
  note r2 = load_coldstart_rows [OF second [unfolded csv]]
  have ids: "\<forall>r\<in>set rows. \<not> blank r \<longrightarrow> strip (r ! 0) \<in> fst ` set (committed s1)"
    unfolding r1(2) apply_all_attempts_ids by blast
  then have same: "committed s2 = committed s1"
    unfolding r2(2) by (rule apply_all_attempts_noop)
  have "\<forall>st\<in>set (attempts 0 rows).
      (case st of InsertIgnore fid ty p \<Rightarrow> fid \<in> fst ` set (committed s1) | DeleteAll \<Rightarrow> False)"
  proof
    fix st assume "st \<in> set (attempts 0 rows)"
    then obtain i where i: "i < length rows" "\<not> blank (rows ! i)"
      "st = InsertIgnore (strip (rows ! i ! 0)) (str ''post'') (0 + i)"
      unfolding set_attempts by blast
    from i(1) have "rows ! i \<in> set rows" by simp
    with ids i(2) have "strip (rows ! i ! 0) \<in> fst ` set (committed s1)" by blast
    with i(3) show "case st of InsertIgnore fid ty p \<Rightarrow> fid \<in> fst ` set (committed s1)
      | DeleteAll \<Rightarrow> False" by simp
  qed
  then have "list_all (\<lambda>st. case st of InsertIgnore fid ty p \<Rightarrow> fid \<in> fst ` set (committed s1)
                      | DeleteAll \<Rightarrow> False) (executed (trace s2))"
    by (simp add: r2(4) list_all_iff)
  with same r1(4) r2(4) show ?thesis by simp
qed

theorem load_coldstart_twice_witness:
  "load_coldstart no_faults Map.empty
     [Row [str ''feed_id''], Row [str ''A''], Row [], Row [str ''B''], Row [str ''A'']]
     [(str ''B'', str ''post'', 7)] =
     (Returned,
      \<lparr> committed = [(str ''B'', str ''post'', 7), (str ''A'', str ''post'', 0)],
        working = [(str ''B'', str ''post'', 7), (str ''A'', str ''post'', 0)],
        conn_open = False, cur_open = False, pending = False, rowcount = 0,
        trace = [Connect, Cursor, OpenFile,
                 Execute (InsertIgnore (str ''A'') (str ''post'') 0),
                 Execute (InsertIgnore (str ''B'') (str ''post'') 2),
                 Execute (InsertIgnore (str ''A'') (str ''post'') 3),
                 CloseFile, Commit, CursorClose, ConnClose],
        stdout = [Loaded 3] \<rparr>) \<and>
   fst (load_coldstart no_faults Map.empty
     [Row [str ''feed_id''], Row [str ''A''], Row [], Row [str ''B''], Row [str ''A'']]
     [(str ''B'', str ''post'', 7), (str ''A'', str ''post'', 0)]) = Returned \<and>
   committed (snd (load_coldstart no_faults Map.empty
     [Row [str ''feed_id''], Row [str ''A''], Row [], Row [str ''B''], Row [str ''A'']]
     [(str ''B'', str ''post'', 7), (str ''A'', str ''post'', 0)])) =
     [(str ''B'', str ''post'', 7), (str ''A'', str ''post'', 0)] \<and>
   length (committed (snd (load_coldstart no_faults Map.empty
     [Row [str ''feed_id''], Row [str ''A''], Row [], Row [str ''B''], Row [str ''A'']]
     [(str ''B'', str ''post'', 7), (str ''A'', str ''post'', 0)]))) = 2"
proof -
  let ?csv = "[Row [str ''feed_id''], Row [str ''A''], Row [], Row [str ''B''], Row [str ''A'']]"
  let ?t = "[(str ''B'', str ''post'', 7::nat)]"
  let ?t1 = "[(str ''B'', str ''post'', 7::nat), (str ''A'', str ''post'', 0)]"
  let ?s = "\<lparr> committed = ?t1, working = ?t1,
        conn_open = False, cur_open = False, pending = False, rowcount = 0,
        trace = [Connect, Cursor, OpenFile,
                 Execute (InsertIgnore (str ''A'') (str ''post'') 0),
                 Execute (InsertIgnore (str ''B'') (str ''post'') 2),
                 Execute (InsertIgnore (str ''A'') (str ''post'') 3),
                 CloseFile, Commit, CursorClose, ConnClose],
        stdout = [Loaded 3] \<rparr>"
  let ?again = "load_coldstart no_faults Map.empty ?csv ?t1"
  have ev1: "load_coldstart no_faults Map.empty ?csv ?t = (Returned, ?s)"
    by (simp add: run_defs str_defs)
  have ev2: "?again = (Returned, snd ?again)"
    by (simp add: run_defs str_defs)
  then have ret: "fst ?again = Returned" by (metis fst_conv)
  have "load_coldstart no_faults Map.empty ?csv (committed ?s) = (Returned, snd ?again)"
    using ev2 by simp
  from load_coldstart_twice [OF ev1 this]
  have "committed (snd ?again) = ?t1" "length (committed (snd ?again)) = 2"
    by simp_all
  with ev1 ret show ?thesis by (intro conjI)
qed

text \<open>
  C7. The connection descriptor is read from the five environment variables
  \<open>DATABASE_HOST\<close>, \<open>DATABASE_PORT\<close>, \<open>DATABASE_NAME\<close>, \<open>DATABASE_USERNAME\<close> and
  \<open>DATABASE_PASSWORD\<close>; a variable that is not set gives \<open>127.0.0.1\<close>, \<open>5432\<close>,
  \<open>apen\<close>, \<open>postgres\<close> and the empty string respectively, and a value that is set is
  taken as it is, whatever it is.
\<close>

theorem DB_CONFIG_from_environment:
  "host (DB_CONFIG env) =
     (case env (str ''DATABASE_HOST'') of Some v \<Rightarrow> v | None \<Rightarrow> str ''127.0.0.1'') \<and>
   port (DB_CONFIG env) =
     (case env (str ''DATABASE_PORT'') of Some v \<Rightarrow> v | None \<Rightarrow> str ''5432'') \<and>
   dbname (DB_CONFIG env) =
     (case env (str ''DATABASE_NAME'') of Some v \<Rightarrow> v | None \<Rightarrow> str ''apen'') \<and>
   user (DB_CONFIG env) =
     (case env (str ''DATABASE_USERNAME'') of Some v \<Rightarrow> v | None \<Rightarrow> str ''postgres'') \<and>
   password (DB_CONFIG env) =
     (case env (str ''DATABASE_PASSWORD'') of Some v \<Rightarrow> v | None \<Rightarrow> []) \<and>
   DB_CONFIG Map.empty =
     \<lparr> host = str ''127.0.0.1'', port = str ''5432'', dbname = str ''apen'',
       user = str ''postgres'', password = [] \<rparr>"
  by (simp add: DB_CONFIG_def getenv_def str_Nil split: option.splits)

theorem DB_CONFIG_from_environment_witness:
  "DB_CONFIG [str ''DATABASE_PORT'' \<mapsto> str ''not a port'', str ''DATABASE_HOST'' \<mapsto> str ''db''] =
     \<lparr> host = str ''db'', port = str ''not a port'', dbname = str ''apen'',
       user = str ''postgres'', password = [] \<rparr>"
proof -
  let ?env = "[str ''DATABASE_PORT'' \<mapsto> str ''not a port'', str ''DATABASE_HOST'' \<mapsto> str ''db'']"
  have "?env (str ''DATABASE_HOST'') = Some (str ''db'')"
    "?env (str ''DATABASE_PORT'') = Some (str ''not a port'')"
    "?env (str ''DATABASE_NAME'') = None" "?env (str ''DATABASE_USERNAME'') = None"
    "?env (str ''DATABASE_PASSWORD'') = None"
    by (simp_all add: str_def)
  with DB_CONFIG_from_environment [of ?env] show ?thesis
    by (cases "DB_CONFIG ?env") simp
qed

text \<open>
  C8. In the eraser and in the loader, once the connection and the cursor have been
  acquired, the run ends, whether it returns or raises, by closing the cursor and then
  the connection, each once; neither is open when the run is over.
\<close>

theorem cursor_and_connection_released:
  assumes "connect_fault F (DB_CONFIG env) = None" "cursor_fault F = None"
  shows "(\<exists>mid. trace (snd (delete_coldstart F env t)) =
            [Connect, Cursor] @ mid @ [CursorClose, ConnClose] \<and>
            CursorClose \<notin> set mid \<and> ConnClose \<notin> set mid) \<and>
         \<not> cur_open (snd (delete_coldstart F env t)) \<and>
         \<not> conn_open (snd (delete_coldstart F env t)) \<and>
         (\<exists>mid. trace (snd (load_coldstart F env csv t')) =
            [Connect, Cursor] @ mid @ [CursorClose, ConnClose] \<and>
            CursorClose \<notin> set mid \<and> ConnClose \<notin> set mid) \<and>
         \<not> cur_open (snd (load_coldstart F env csv t')) \<and>
         \<not> conn_open (snd (load_coldstart F env csv t'))"
proof -
  obtain r1 s1 where dt: "delete_try F (acquired t) = (r1, s1)"
    by (cases "delete_try F (acquired t)")
  from delete_try_trace [OF dt] obtain evs where
    "trace s1 = [Connect, Cursor] @ evs" "Rollback \<notin> set evs" "CursorClose \<notin> set evs"
    "ConnClose \<notin> set evs"
    by (auto simp: acquired_fields)
  from run_end [OF this, where res = r1 and F = F]
  have d: "(\<exists>mid. trace (snd (delete_coldstart F env t)) =
            [Connect, Cursor] @ mid @ [CursorClose, ConnClose] \<and>
            CursorClose \<notin> set mid \<and> ConnClose \<notin> set mid) \<and>
         \<not> cur_open (snd (delete_coldstart F env t)) \<and>
         \<not> conn_open (snd (delete_coldstart F env t))"
    by (simp add: delete_coldstart_acquired [OF assms] dt)
  obtain r2 s2 where lt: "load_try F csv (acquired t') = (r2, s2)"
    by (cases "load_try F csv (acquired t')")
  from load_try_trace [OF lt] obtain evs' where
    "trace s2 = [Connect, Cursor] @ evs'" "Rollback \<notin> set evs'" "CursorClose \<notin> set evs'"
    "ConnClose \<notin> set evs'"
    by (auto simp: acquired_fields)
  from run_end [OF this, where res = r2 and F = F]
  have l: "(\<exists>mid. trace (snd (load_coldstart F env csv t')) =
            [Connect, Cursor] @ mid @ [CursorClose, ConnClose] \<and>
            CursorClose \<notin> set mid \<and> ConnClose \<notin> set mid) \<and>
         \<not> cur_open (snd (load_coldstart F env csv t')) \<and>
         \<not> conn_open (snd (load_coldstart F env csv t'))"
    by (simp add: load_coldstart_acquired [OF assms] lt)
  from d l show ?thesis by (simp only: simp_thms)
qed

theorem cursor_and_connection_released_witness:
  "connect_fault (no_faults\<lparr>execute_fault := (\<lambda>k. Some (DatabaseError ''server closed''))\<rparr>)
     (DB_CONFIG Map.empty) = None \<and>
   cursor_fault (no_faults\<lparr>execute_fault := (\<lambda>k. Some (DatabaseError ''server closed''))\<rparr>) = None \<and>
   fst (delete_coldstart (no_faults\<lparr>execute_fault := (\<lambda>k. Some (DatabaseError ''server closed''))\<rparr>)
     Map.empty [(str ''A'', str ''post'', 0)]) = Raised (DatabaseError ''server closed'') \<and>
   \<not> cur_open (snd (delete_coldstart
     (no_faults\<lparr>execute_fault := (\<lambda>k. Some (DatabaseError ''server closed''))\<rparr>)
     Map.empty [(str ''A'', str ''post'', 0)])) \<and>
   \<not> conn_open (snd (delete_coldstart
     (no_faults\<lparr>execute_fault := (\<lambda>k. Some (DatabaseError ''server closed''))\<rparr>)
     Map.empty [(str ''A'', str ''post'', 0)])) \<and>
   fst (load_coldstart (no_faults\<lparr>execute_fault := (\<lambda>k. Some (DatabaseError ''server closed''))\<rparr>)
     Map.empty [Row [str ''feed_id''], Row [str ''B'']] []) = Raised (DatabaseError ''server closed'') \<and>
   \<not> cur_open (snd (load_coldstart
     (no_faults\<lparr>execute_fault := (\<lambda>k. Some (DatabaseError ''server closed''))\<rparr>)
     Map.empty [Row [str ''feed_id''], Row [str ''B'']] [])) \<and>
   \<not> conn_open (snd (load_coldstart
     (no_faults\<lparr>execute_fault := (\<lambda>k. Some (DatabaseError ''server closed''))\<rparr>)
     Map.empty [Row [str ''feed_id''], Row [str ''B'']] []))"
proof -
  let ?F = "no_faults\<lparr>execute_fault := (\<lambda>k. Some (DatabaseError ''server closed''))\<rparr>"
  have acq: "connect_fault ?F (DB_CONFIG Map.empty) = None" "cursor_fault ?F = None"
    by (simp_all add: no_faults_def)
  have d: "fst (delete_coldstart ?F Map.empty [(str ''A'', str ''post'', 0)]) =
      Raised (DatabaseError ''server closed'')"
    by (simp add: run_defs)
  have l: "fst (load_coldstart ?F Map.empty [Row [str ''feed_id''], Row [str ''B'']] []) =
      Raised (DatabaseError ''server closed'')"
    by (simp add: run_defs str_defs)
  note T = cursor_and_connection_released [OF acq,
      of "[(str ''A'', str ''post'', 0)]" "[Row [str ''feed_id''], Row [str ''B'']]" "[]"]
  from T have
    "\<not> cur_open (snd (delete_coldstart ?F Map.empty [(str ''A'', str ''post'', 0)]))"
    "\<not> conn_open (snd (delete_coldstart ?F Map.empty [(str ''A'', str ''post'', 0)]))"
    "\<not> cur_open (snd (load_coldstart ?F Map.empty [Row [str ''feed_id''], Row [str ''B'']] []))"
    "\<not> conn_open (snd (load_coldstart ?F Map.empty [Row [str ''feed_id''], Row [str ''B'']] []))"
    by blast+
  with acq d l show ?thesis by (intro conjI)
qed

text \<open>
  C9, as the code has it. The claim that nothing is rolled back when \<open>coldstart.csv\<close>
  cannot be opened fails: the file is opened inside the \<open>try\<close> block, so the handler
  catches the error and calls \<open>rollback\<close> before raising it again.
\<close>

theorem load_coldstart_missing_file_rolls_back:
  "load_coldstart (no_faults\<lparr>open_fault := Some (OSError ''No such file or directory'')\<rparr>)
     Map.empty [] [] =
     (Raised (OSError ''No such file or directory''),
      \<lparr> committed = [], working = [], conn_open = False, cur_open = False, pending = False,
        rowcount = - 1,
        trace = [Connect, Cursor, Rollback, CursorClose, ConnClose], stdout = [] \<rparr>) \<and>
   Rollback \<in> set (trace (snd (load_coldstart
     (no_faults\<lparr>open_fault := Some (OSError ''No such file or directory'')\<rparr>) Map.empty [] [])))"
  by (simp add: load_coldstart_def connect_def cursor_def load_try_def start_def
      rollback_def cursor_close_def conn_close_def no_faults_def)

text \<open>
  C9, amended. If \<open>coldstart.csv\<close> cannot be opened, the file-access error is caught by
  the handler of \<open>load_coldstart\<close>, which rolls back (no statement has run, so the table
  is as it was) and raises the same error again to the caller; the cursor and the
  connection are then closed.
\<close>

theorem load_coldstart_open_fails:
  assumes "connect_fault F (DB_CONFIG env) = None" "cursor_fault F = None" "open_fault F = Some e"
  shows "load_coldstart F env csv t =
     (Raised e,
      \<lparr> committed = t, working = t, conn_open = False, cur_open = False, pending = False,
        rowcount = - 1,
        trace = [Connect, Cursor, Rollback, CursorClose, ConnClose], stdout = [] \<rparr>)"
  using assms
  by (simp add: load_coldstart_def connect_def cursor_def load_try_def start_def
      rollback_def cursor_close_def conn_close_def)

theorem load_coldstart_open_fails_witness:
  "connect_fault (no_faults\<lparr>open_fault := Some (OSError ''Permission denied'')\<rparr>)
     (DB_CONFIG Map.empty) = None \<and>
   cursor_fault (no_faults\<lparr>open_fault := Some (OSError ''Permission denied'')\<rparr>) = None \<and>
   open_fault (no_faults\<lparr>open_fault := Some (OSError ''Permission denied'')\<rparr>) =
     Some (OSError ''Permission denied'') \<and>
   load_coldstart (no_faults\<lparr>open_fault := Some (OSError ''Permission denied'')\<rparr>) Map.empty
     [Row [str ''feed_id''], Row [str ''A'']] [(str ''B'', str ''post'', 4)] =
     (Raised (OSError ''Permission denied''),
      \<lparr> committed = [(str ''B'', str ''post'', 4)], working = [(str ''B'', str ''post'', 4)],
        conn_open = False, cur_open = False, pending = False, rowcount = - 1,
        trace = [Connect, Cursor, Rollback, CursorClose, ConnClose], stdout = [] \<rparr>)"
  using load_coldstart_open_fails [of "no_faults\<lparr>open_fault := Some (OSError ''Permission denied'')\<rparr>"
      Map.empty "OSError ''Permission denied''" "[Row [str ''feed_id''], Row [str ''A'']]"
      "[(str ''B'', str ''post'', 4)]"]
  by (simp add: no_faults_def)

text \<open>
  C10. For a file with no rows at all, not even a header, the loader does not report a
  count of zero: skipping the header raises \<open>StopIteration\<close>, the handler rolls back and
  the error leaves \<open>load_coldstart\<close>; nothing is printed and the table is as it was.
\<close>

theorem load_coldstart_empty_file:
  assumes "connect_fault F (DB_CONFIG env) = None" "cursor_fault F = None" "open_fault F = None"
  shows "load_coldstart F env [] t =
     (Raised StopIteration,
      \<lparr> committed = t, working = t, conn_open = False, cur_open = False, pending = False,
        rowcount = - 1,
        trace = [Connect, Cursor, OpenFile, CloseFile, Rollback, CursorClose, ConnClose],
        stdout = [] \<rparr>)"
  using assms
  by (simp add: load_coldstart_def connect_def cursor_def load_try_def start_def open_file_def
      close_file_def rollback_def cursor_close_def conn_close_def)

theorem load_coldstart_empty_file_witness:
  "connect_fault no_faults (DB_CONFIG Map.empty) = None \<and> cursor_fault no_faults = None \<and>
   open_fault no_faults = None \<and>
   load_coldstart no_faults Map.empty [] [(str ''a'', str ''post'', 7)] =
     (Raised StopIteration,
      \<lparr> committed = [(str ''a'', str ''post'', 7)], working = [(str ''a'', str ''post'', 7)],
        conn_open = False, cur_open = False, pending = False, rowcount = - 1,
        trace = [Connect, Cursor, OpenFile, CloseFile, Rollback, CursorClose, ConnClose],
        stdout = [] \<rparr>)"
  using load_coldstart_empty_file [of no_faults Map.empty "[(str ''a'', str ''post'', 7)]"]
  by (simp add: no_faults_def)

end
